theory Spec2Isabelle
  imports Main "HOL-Library.Word"
begin

unbundle bit_operations_syntax

section \<open>The MessagePack parser of the DELILA file readers\<close>

text \<open>
  The two ROOT macros \<^verbatim>\<open>macros/convert_to_tree.C\<close> and \<^verbatim>\<open>macros/read_delila.C\<close> each
  carry a class \<^verbatim>\<open>MsgPackParser\<close> over an immutable byte vector \<^verbatim>\<open>data_\<close> and a read
  position \<^verbatim>\<open>pos_\<close>.  The primitives \<^verbatim>\<open>read_array_header\<close>, \<^verbatim>\<open>read_uint\<close> and
  \<^verbatim>\<open>read_float64\<close> are textually the same in both files; \<^verbatim>\<open>read_int\<close>, \<^verbatim>\<open>read_bin\<close>,
  \<^verbatim>\<open>read_u8_array\<close> and \<^verbatim>\<open>read_i16_array\<close> exist in \<^verbatim>\<open>convert_to_tree.C\<close> only.

  The buffer is a list of bytes and \<^verbatim>\<open>pos_\<close> (a \<^verbatim>\<open>size_t\<close>) a natural number: the
  position never passes the length of the vector, so the additions \<^verbatim>\<open>pos_ + k\<close> of the
  source cannot wrap.  A member function that returns \<^verbatim>\<open>bool\<close> and writes its result
  through a reference becomes a function into \<open>'a outcome\<close>:
  \<^item> \<open>Done v p\<close>: it returned \<^verbatim>\<open>true\<close>, the out-parameter holds \<open>v\<close>, and \<^verbatim>\<open>pos_\<close> is \<open>p\<close>;
  \<^item> \<open>Failed p\<close>: it returned \<^verbatim>\<open>false\<close>, and \<^verbatim>\<open>pos_\<close> is \<open>p\<close>;
  \<^item> \<open>Fault k\<close>: it did not return.  It read outside the buffer, stored outside the
    destination array or (in the block loops) overflowed a signed counter, which is
    undefined behaviour in C++, or an exception that nothing catches left it
    (\<open>AllocFailure\<close>: the macros have no \<^verbatim>\<open>try\<close> block).
\<close>

type_synonym byte = "8 word"

datatype fault = BufferOverread | DestOverflow | SignedOverflow | AllocFailure

datatype 'a outcome = Done 'a nat | Failed nat | Fault fault

text \<open>\<^verbatim>\<open>if (!f(x)) return false;\<close> followed by the rest of the body.\<close>

definition and_then :: "'a outcome \<Rightarrow> ('a \<Rightarrow> nat \<Rightarrow> 'b outcome) \<Rightarrow> 'b outcome" where
  "and_then r k = (case r of Done v p \<Rightarrow> k v p | Failed p \<Rightarrow> Failed p | Fault f \<Rightarrow> Fault f)"

text \<open>The subscript \<^verbatim>\<open>data_[i]\<close>: a read outside the vector is a fault.\<close>

definition idx :: "byte list \<Rightarrow> nat \<Rightarrow> (byte \<Rightarrow> 'a outcome) \<Rightarrow> 'a outcome" where
  "idx d i k = (if i < length d then k (d ! i) else Fault BufferOverread)"

text \<open>
  \<^verbatim>\<open>(data_[pos_] << 8) | data_[pos_ + 1]\<close>: both bytes are promoted to \<^verbatim>\<open>int\<close>, so the
  expression is a 32-bit signed value.
\<close>

definition be16_int :: "byte \<Rightarrow> byte \<Rightarrow> 32 word" where
  "be16_int b0 b1 = push_bit 8 (ucast b0) OR ucast b1"

text \<open>The four-byte big-endian value assembled in \<^verbatim>\<open>uint32_t\<close>.\<close>

definition be32 :: "byte \<Rightarrow> byte \<Rightarrow> byte \<Rightarrow> byte \<Rightarrow> 32 word" where
  "be32 b0 b1 b2 b3 =
     push_bit 24 (ucast b0) OR push_bit 16 (ucast b1) OR push_bit 8 (ucast b2) OR ucast b3"

text \<open>The eight-byte big-endian value assembled in \<^verbatim>\<open>uint64_t\<close>.\<close>

definition be64 ::
  "byte \<Rightarrow> byte \<Rightarrow> byte \<Rightarrow> byte \<Rightarrow> byte \<Rightarrow> byte \<Rightarrow> byte \<Rightarrow> byte \<Rightarrow> 64 word" where
  "be64 b0 b1 b2 b3 b4 b5 b6 b7 =
     push_bit 56 (ucast b0) OR push_bit 48 (ucast b1) OR push_bit 40 (ucast b2) OR
     push_bit 32 (ucast b3) OR push_bit 24 (ucast b4) OR push_bit 16 (ucast b5) OR
     push_bit 8 (ucast b6) OR ucast b7"

text \<open>\<^verbatim>\<open>read_array_header(size_t& size)\<close>; the \<^verbatim>\<open>size_t\<close> result is below \<open>2 ^ 32\<close>.\<close>

definition read_array_header :: "byte list \<Rightarrow> nat \<Rightarrow> nat outcome" where
  "read_array_header d pos =
     (if pos \<ge> length d then Failed pos
      else idx d pos (\<lambda>b. let pos = pos + 1 in
        if b AND 0xf0 = 0x90 then Done (unat (b AND 0x0f)) pos
        else if b = 0xdc \<and> pos + 2 \<le> length d then
          idx d pos (\<lambda>b0. idx d (pos + 1) (\<lambda>b1.
            Done (unat (scast (be16_int b0 b1) :: 64 word)) (pos + 2)))
        else if b = 0xdd \<and> pos + 4 \<le> length d then
          idx d pos (\<lambda>b0. idx d (pos + 1) (\<lambda>b1. idx d (pos + 2) (\<lambda>b2. idx d (pos + 3) (\<lambda>b3.
            Done (unat (be32 b0 b1 b2 b3)) (pos + 4)))))
        else Failed pos))"

text \<open>\<^verbatim>\<open>read_uint(uint64_t& val)\<close>.\<close>

definition read_uint :: "byte list \<Rightarrow> nat \<Rightarrow> 64 word outcome" where
  "read_uint d pos =
     (if pos \<ge> length d then Failed pos
      else idx d pos (\<lambda>b. let pos = pos + 1 in
        if b \<le> 0x7f then Done (ucast b) pos
        else if b = 0xcc \<and> pos + 1 \<le> length d then
          idx d pos (\<lambda>v. Done (ucast v) (pos + 1))
        else if b = 0xcd \<and> pos + 2 \<le> length d then
          idx d pos (\<lambda>b0. idx d (pos + 1) (\<lambda>b1.
            Done (scast (be16_int b0 b1)) (pos + 2)))
        else if b = 0xce \<and> pos + 4 \<le> length d then
          idx d pos (\<lambda>b0. idx d (pos + 1) (\<lambda>b1. idx d (pos + 2) (\<lambda>b2. idx d (pos + 3) (\<lambda>b3.
            Done (ucast (be32 b0 b1 b2 b3)) (pos + 4)))))
        else if b = 0xcf \<and> pos + 8 \<le> length d then
          idx d pos (\<lambda>b0. idx d (pos + 1) (\<lambda>b1. idx d (pos + 2) (\<lambda>b2. idx d (pos + 3) (\<lambda>b3.
          idx d (pos + 4) (\<lambda>b4. idx d (pos + 5) (\<lambda>b5. idx d (pos + 6) (\<lambda>b6. idx d (pos + 7) (\<lambda>b7.
            Done (be64 b0 b1 b2 b3 b4 b5 b6 b7) (pos + 8)))))))))
        else Failed pos))"

text \<open>
  \<^verbatim>\<open>read_int(int64_t& val)\<close>: the tag is only peeked; each signed branch advances
  \<^verbatim>\<open>pos_\<close> after its own bounds check, and everything else is handed to \<^verbatim>\<open>read_uint\<close>.
  The \<^verbatim>\<open>int64_t\<close> result is a 64-bit word, read with \<open>sint\<close>.
\<close>

definition read_int :: "byte list \<Rightarrow> nat \<Rightarrow> 64 word outcome" where
  "read_int d pos =
     (if pos \<ge> length d then Failed pos
      else idx d pos (\<lambda>b.
        if b \<le> 0x7f then Done (ucast b) (pos + 1)
        else if b \<ge> 0xe0 then Done (scast b) (pos + 1)
        else if b = 0xd0 \<and> pos + 2 \<le> length d then
          idx d (pos + 1) (\<lambda>v. Done (scast v) (pos + 2))
        else if b = 0xd1 \<and> pos + 3 \<le> length d then
          idx d (pos + 1) (\<lambda>b0. idx d (pos + 2) (\<lambda>b1.
            Done (scast (ucast (be16_int b0 b1) :: 16 word)) (pos + 3)))
        else if b = 0xd2 \<and> pos + 5 \<le> length d then
          idx d (pos + 1) (\<lambda>b0. idx d (pos + 2) (\<lambda>b1. idx d (pos + 3) (\<lambda>b2. idx d (pos + 4) (\<lambda>b3.
            Done (scast (be32 b0 b1 b2 b3)) (pos + 5)))))
        else and_then (read_uint d pos) (\<lambda>uval pos. Done uval pos)))"

text \<open>
  \<^verbatim>\<open>read_float64(double& val)\<close>: the \<^verbatim>\<open>double\<close> is the 64-bit pattern that
  \<^verbatim>\<open>memcpy\<close> moves into it.
\<close>

definition read_float64 :: "byte list \<Rightarrow> nat \<Rightarrow> 64 word outcome" where
  "read_float64 d pos =
     (if pos \<ge> length d then Failed pos
      else idx d pos (\<lambda>b. let pos = pos + 1 in
        if b = 0xcb \<and> pos + 8 \<le> length d then
          idx d pos (\<lambda>b0. idx d (pos + 1) (\<lambda>b1. idx d (pos + 2) (\<lambda>b2. idx d (pos + 3) (\<lambda>b3.
          idx d (pos + 4) (\<lambda>b4. idx d (pos + 5) (\<lambda>b5. idx d (pos + 6) (\<lambda>b6. idx d (pos + 7) (\<lambda>b7.
            Done (be64 b0 b1 b2 b3 b4 b5 b6 b7) (pos + 8)))))))))
        else Failed pos))"

text \<open>\<^verbatim>\<open>static_cast<int>(x)\<close> of a \<^verbatim>\<open>size_t\<close>: the low 32 bits, read as signed.\<close>

definition to_int :: "nat \<Rightarrow> int" where
  "to_int x = sint (word_of_nat x :: 32 word)"

text \<open>
  \<^verbatim>\<open>std::memcpy(arr, &data_[pos_], n)\<close> with the \<^verbatim>\<open>int\<close> count converted to
  \<^verbatim>\<open>size_t\<close>: it reads \<open>cnt\<close> bytes of the buffer from \<open>pos\<close> on and writes them to
  \<open>arr[0]\<close> .. \<open>arr[cnt - 1]\<close>.  No byte is read or written when the count is 0.  The
  argument \<^verbatim>\<open>&data_[pos_]\<close> applies the subscript operator without reading the element;
  \<open>memcpy_from\<close> is about the bytes that are copied, and the subscript that forms the
  address is \<open>memcpy_source\<close> below.
\<close>

definition memcpy_from ::
  "byte list \<Rightarrow> byte list \<Rightarrow> nat \<Rightarrow> int \<Rightarrow> (byte list \<Rightarrow> 'a outcome) \<Rightarrow> 'a outcome" where
  "memcpy_from arr d pos n k =
     (let cnt = unat (word_of_int n :: 64 word) in
      if pos + cnt > length d then Fault BufferOverread
      else if cnt > length arr then Fault DestOverflow
      else k (take cnt (drop pos d) @ drop cnt arr))"

text \<open>
  The first half of \<^verbatim>\<open>read_bin\<close>, up to the line \<^verbatim>\<open>n = std::min(...)\<close>: the tag
  byte and the length field of a \<^verbatim>\<open>bin8\<close>, \<^verbatim>\<open>bin16\<close> or \<^verbatim>\<open>bin32\<close> string.  The result
  is the local \<^verbatim>\<open>size\<close>, the declared length.
\<close>

definition read_bin_size :: "byte list \<Rightarrow> nat \<Rightarrow> nat outcome" where
  "read_bin_size d pos =
     (if pos \<ge> length d then Failed pos
      else idx d pos (\<lambda>b. let pos = pos + 1 in
        if b = 0xc4 \<and> pos + 1 \<le> length d then
          idx d pos (\<lambda>v. Done (unat v) (pos + 1))
        else if b = 0xc5 \<and> pos + 2 \<le> length d then
          idx d pos (\<lambda>b0. idx d (pos + 1) (\<lambda>b1.
            Done (unat (scast (be16_int b0 b1) :: 64 word)) (pos + 2)))
        else if b = 0xc6 \<and> pos + 4 \<le> length d then
          idx d pos (\<lambda>b0. idx d (pos + 1) (\<lambda>b1. idx d (pos + 2) (\<lambda>b2. idx d (pos + 3) (\<lambda>b3.
            Done (unat (be32 b0 b1 b2 b3)) (pos + 4)))))
        else Failed pos))"

text \<open>
  The subscript in \<^verbatim>\<open>&data_[pos_]\<close>, the source argument of the \<^verbatim>\<open>memcpy\<close> in
  \<^verbatim>\<open>read_bin\<close>: \<open>Some i\<close> when \<^verbatim>\<open>read_bin\<close>, started at \<open>pos\<close>, gets as far as that line
  (the tag and the length field are read and \<^verbatim>\<open>pos_ + size > data_.size()\<close> is false)
  and evaluates \<^verbatim>\<open>data_[i]\<close> there, \<open>None\<close> when it returns before.
\<close>

definition memcpy_source :: "byte list \<Rightarrow> nat \<Rightarrow> nat option" where
  "memcpy_source d pos =
     (case read_bin_size d pos of
        Done sz p \<Rightarrow> if p + sz > length d then None else Some p
      | Failed p \<Rightarrow> None
      | Fault k \<Rightarrow> None)"

text \<open>
  \<^verbatim>\<open>read_bin(int& n, uint8_t* arr, int max_size)\<close>.  The result of a successful call is
  the pair of \<^verbatim>\<open>n\<close> and the contents of the destination array \<^verbatim>\<open>arr\<close>, whose capacity
  is the length of the list passed in.
\<close>

definition read_bin :: "byte list \<Rightarrow> nat \<Rightarrow> byte list \<Rightarrow> int \<Rightarrow> (int \<times> byte list) outcome" where
  "read_bin d pos arr max_size =
     and_then (read_bin_size d pos) (\<lambda>size pos.
       let n = min (to_int size) max_size in
       if pos + size > length d then Failed pos
       else memcpy_from arr d pos n (\<lambda>arr. Done (n, arr) (pos + size)))"

text \<open>
  The element loop of \<^verbatim>\<open>read_i16_array\<close>: \<^verbatim>\<open>for (size_t i = 0; i < size; i++)\<close>.
  A store \<^verbatim>\<open>arr[i] = ...\<close> outside the destination array is a fault.
\<close>

function i16_loop ::
  "byte list \<Rightarrow> nat \<Rightarrow> int \<Rightarrow> nat \<Rightarrow> nat \<Rightarrow> 16 word list \<Rightarrow> (16 word list) outcome" where
  "i16_loop d sz max_size i pos arr =
     (if i < sz then
        and_then (read_int d pos) (\<lambda>val pos.
          if to_int i < max_size then
            (if i < length arr then i16_loop d sz max_size (i + 1) pos (arr[i := ucast val])
             else Fault DestOverflow)
          else i16_loop d sz max_size (i + 1) pos arr)
      else Done arr pos)"
  by pat_completeness auto
termination
  by (relation "measure (\<lambda>(d, sz, max_size, i, pos, arr). sz - i)") auto

declare i16_loop.simps [simp del]

text \<open>\<^verbatim>\<open>read_i16_array(int& n, int16_t* arr, int max_size)\<close>.\<close>

definition read_i16_array ::
  "byte list \<Rightarrow> nat \<Rightarrow> 16 word list \<Rightarrow> int \<Rightarrow> (int \<times> 16 word list) outcome" where
  "read_i16_array d pos arr max_size =
     and_then (read_array_header d pos) (\<lambda>size pos.
       let n = min (to_int size) max_size in
       and_then (i16_loop d size max_size 0 pos arr) (\<lambda>arr pos. Done (n, arr) pos))"

text \<open>The element loop of the array branch of \<^verbatim>\<open>read_u8_array\<close>.\<close>

function u8_loop ::
  "byte list \<Rightarrow> nat \<Rightarrow> int \<Rightarrow> nat \<Rightarrow> nat \<Rightarrow> byte list \<Rightarrow> (byte list) outcome" where
  "u8_loop d sz max_size i pos arr =
     (if i < sz then
        and_then (read_uint d pos) (\<lambda>val pos.
          if to_int i < max_size then
            (if i < length arr then u8_loop d sz max_size (i + 1) pos (arr[i := ucast val])
             else Fault DestOverflow)
          else u8_loop d sz max_size (i + 1) pos arr)
      else Done arr pos)"
  by pat_completeness auto
termination
  by (relation "measure (\<lambda>(d, sz, max_size, i, pos, arr). sz - i)") auto

declare u8_loop.simps [simp del]

text \<open>\<^verbatim>\<open>read_u8_array(int& n, uint8_t* arr, int max_size)\<close>.\<close>

definition read_u8_array ::
  "byte list \<Rightarrow> nat \<Rightarrow> byte list \<Rightarrow> int \<Rightarrow> (int \<times> byte list) outcome" where
  "read_u8_array d pos arr max_size =
     (if pos \<ge> length d then Failed pos
      else idx d pos (\<lambda>b.
        if b = 0xc4 \<or> b = 0xc5 \<or> b = 0xc6 then read_bin d pos arr max_size
        else
          and_then (read_array_header d pos) (\<lambda>size pos.
            let n = min (to_int size) max_size in
            and_then (u8_loop d size max_size 0 pos arr) (\<lambda>arr pos. Done (n, arr) pos))))"

subsection \<open>The event schema of \<^verbatim>\<open>convert_to_tree.C\<close>\<close>

definition MAX_WAVEFORM_SAMPLES :: int where
  "MAX_WAVEFORM_SAMPLES = 16384"

text \<open>
  The branch variables of \<^verbatim>\<open>convert_to_tree\<close>, which \<^verbatim>\<open>parse_event\<close> receives by
  reference: the scalars, the six sample counts and the six sample arrays.  A failed
  call leaves some of them overwritten in C++; \<open>Failed\<close> does not carry them, since the
  caller stops using the event and every later successful call assigns each scalar and
  each count again.
\<close>

record branches =
  b_module :: byte
  b_channel :: byte
  b_energy :: "16 word"
  b_energy_short :: "16 word"
  b_timestamp_ns :: "64 word"
  b_flags :: "64 word"
  b_has_waveform :: bool
  b_n_analog1 :: int
  b_n_analog2 :: int
  b_n_digital1 :: int
  b_n_digital2 :: int
  b_n_digital3 :: int
  b_n_digital4 :: int
  b_analog1 :: "16 word list"
  b_analog2 :: "16 word list"
  b_digital1 :: "byte list"
  b_digital2 :: "byte list"
  b_digital3 :: "byte list"
  b_digital4 :: "byte list"
  b_time_resolution :: byte
  b_trigger_threshold :: "16 word"

text \<open>\<^verbatim>\<open>parse_waveform\<close> (the warning on \<^verbatim>\<open>std::cerr\<close> is not part of the result).\<close>

definition parse_waveform :: "byte list \<Rightarrow> nat \<Rightarrow> branches \<Rightarrow> branches outcome" where
  "parse_waveform d pos br =
     and_then (read_array_header d pos) (\<lambda>wf_size pos.
     if wf_size \<noteq> 8 then Failed pos else
     and_then (read_i16_array d pos (b_analog1 br) MAX_WAVEFORM_SAMPLES) (\<lambda>(n, arr) pos.
     let br = br\<lparr>b_n_analog1 := n, b_analog1 := arr\<rparr> in
     and_then (read_i16_array d pos (b_analog2 br) MAX_WAVEFORM_SAMPLES) (\<lambda>(n, arr) pos.
     let br = br\<lparr>b_n_analog2 := n, b_analog2 := arr\<rparr> in
     and_then (read_u8_array d pos (b_digital1 br) MAX_WAVEFORM_SAMPLES) (\<lambda>(n, arr) pos.
     let br = br\<lparr>b_n_digital1 := n, b_digital1 := arr\<rparr> in
     and_then (read_u8_array d pos (b_digital2 br) MAX_WAVEFORM_SAMPLES) (\<lambda>(n, arr) pos.
     let br = br\<lparr>b_n_digital2 := n, b_digital2 := arr\<rparr> in
     and_then (read_u8_array d pos (b_digital3 br) MAX_WAVEFORM_SAMPLES) (\<lambda>(n, arr) pos.
     let br = br\<lparr>b_n_digital3 := n, b_digital3 := arr\<rparr> in
     and_then (read_u8_array d pos (b_digital4 br) MAX_WAVEFORM_SAMPLES) (\<lambda>(n, arr) pos.
     let br = br\<lparr>b_n_digital4 := n, b_digital4 := arr\<rparr> in
     and_then (read_uint d pos) (\<lambda>tmp pos.
     let br = br\<lparr>b_time_resolution := ucast tmp\<rparr> in
     and_then (read_uint d pos) (\<lambda>tmp pos.
     let br = br\<lparr>b_trigger_threshold := ucast tmp\<rparr> in
     Done br pos)))))))))"

text \<open>\<^verbatim>\<open>parse_event\<close> of \<^verbatim>\<open>convert_to_tree.C\<close>: the decode with waveform.\<close>

definition parse_event :: "byte list \<Rightarrow> nat \<Rightarrow> branches \<Rightarrow> branches outcome" where
  "parse_event d pos br =
     and_then (read_array_header d pos) (\<lambda>ev_size pos.
     if ev_size \<noteq> 6 \<and> ev_size \<noteq> 7 then Failed pos else
     and_then (read_uint d pos) (\<lambda>tmp pos.
     let br = br\<lparr>b_module := ucast tmp\<rparr> in
     and_then (read_uint d pos) (\<lambda>tmp pos.
     let br = br\<lparr>b_channel := ucast tmp\<rparr> in
     and_then (read_uint d pos) (\<lambda>tmp pos.
     let br = br\<lparr>b_energy := ucast tmp\<rparr> in
     and_then (read_uint d pos) (\<lambda>tmp pos.
     let br = br\<lparr>b_energy_short := ucast tmp\<rparr> in
     and_then (read_float64 d pos) (\<lambda>ts pos.
     let br = br\<lparr>b_timestamp_ns := ts\<rparr> in
     and_then (read_uint d pos) (\<lambda>fl pos.
     let br = br\<lparr>b_flags := fl\<rparr>;
         br = br\<lparr>b_has_waveform := (ev_size = 7),
                 b_n_analog1 := 0, b_n_analog2 := 0,
                 b_n_digital1 := 0, b_n_digital2 := 0, b_n_digital3 := 0, b_n_digital4 := 0,
                 b_time_resolution := 0, b_trigger_threshold := 0\<rparr> in
     if b_has_waveform br then parse_waveform d pos br else Done br pos)))))))"

text \<open>\<^verbatim>\<open>parse_batch_header\<close>: the source id and the declared number of events.\<close>

definition parse_batch_header :: "byte list \<Rightarrow> nat \<Rightarrow> (32 word \<times> nat) outcome" where
  "parse_batch_header d pos =
     and_then (read_array_header d pos) (\<lambda>batch_size pos.
     if batch_size \<noteq> 4 then Failed pos else
     and_then (read_uint d pos) (\<lambda>src pos.
     and_then (read_uint d pos) (\<lambda>seq pos.
     and_then (read_uint d pos) (\<lambda>ts pos.
     and_then (read_array_header d pos) (\<lambda>num_events pos.
     Done (ucast src, num_events) pos)))))"

subsection \<open>The event schema of \<^verbatim>\<open>read_delila.C\<close>\<close>

text \<open>\<^verbatim>\<open>struct Event\<close>.\<close>

record event =
  module :: byte
  channel :: byte
  energy :: "16 word"
  energy_short :: "16 word"
  timestamp_ns :: "64 word"
  flags :: "64 word"

text \<open>
  \<^verbatim>\<open>parse_event\<close> of \<^verbatim>\<open>read_delila.C\<close> (the decode without waveform); the name is
  taken by the function of \<^verbatim>\<open>convert_to_tree.C\<close>.
\<close>

definition parse_event_minimal :: "byte list \<Rightarrow> nat \<Rightarrow> event outcome" where
  "parse_event_minimal d pos =
     and_then (read_array_header d pos) (\<lambda>ev_size pos.
     if ev_size \<noteq> 6 then Failed pos else
     and_then (read_uint d pos) (\<lambda>tmp pos. let m = ucast tmp in
     and_then (read_uint d pos) (\<lambda>tmp pos. let c = ucast tmp in
     and_then (read_uint d pos) (\<lambda>tmp pos. let e = ucast tmp in
     and_then (read_uint d pos) (\<lambda>tmp pos. let es = ucast tmp in
     and_then (read_float64 d pos) (\<lambda>ts pos.
     and_then (read_uint d pos) (\<lambda>fl pos.
     Done \<lparr>module = m, channel = c, energy = e, energy_short = es,
            timestamp_ns = ts, flags = fl\<rparr> pos)))))))"

text \<open>The event loop of \<^verbatim>\<open>parse_batch\<close>.\<close>

function batch_events :: "byte list \<Rightarrow> nat \<Rightarrow> nat \<Rightarrow> nat \<Rightarrow> event list \<Rightarrow> (event list) outcome" where
  "batch_events d num_events i pos events =
     (if i < num_events then
        and_then (parse_event_minimal d pos) (\<lambda>ev pos.
          batch_events d num_events (i + 1) pos (events @ [ev]))
      else Done events pos)"
  by pat_completeness auto
termination
  by (relation "measure (\<lambda>(d, num_events, i, pos, events). num_events - i)") auto

declare batch_events.simps [simp del]

text \<open>
  \<^verbatim>\<open>parse_batch\<close>, called with an empty \<^verbatim>\<open>events\<close> vector.
  \<^verbatim>\<open>events.reserve(num_events)\<close> asks for the memory of as many events as the stream
  declares, before any of them is read; when the request is not met it throws
  (\<^verbatim>\<open>std::length_error\<close> or \<^verbatim>\<open>std::bad_alloc\<close>), and since nothing catches the
  exception the program ends there.  Whether a request is met depends on the machine:
  \<open>granted n\<close> says whether room for \<open>n\<close> events is granted.  A request for no events
  allocates nothing, and once the room is reserved the \<^verbatim>\<open>push_back\<close> calls of the
  loop do not allocate.
\<close>

definition parse_batch ::
  "(nat \<Rightarrow> bool) \<Rightarrow> byte list \<Rightarrow> nat \<Rightarrow> (32 word \<times> event list) outcome" where
  "parse_batch granted d pos =
     and_then (read_array_header d pos) (\<lambda>batch_size pos.
     if batch_size \<noteq> 4 then Failed pos else
     and_then (read_uint d pos) (\<lambda>src pos.
     and_then (read_uint d pos) (\<lambda>seq pos.
     and_then (read_uint d pos) (\<lambda>ts pos.
     and_then (read_array_header d pos) (\<lambda>num_events pos.
     if 0 < num_events \<and> \<not> granted num_events then Fault AllocFailure else
     and_then (batch_events d num_events 0 pos []) (\<lambda>events pos.
     Done (ucast src, events) pos))))))"

section \<open>File framing\<close>

text \<open>
  A \<^verbatim>\<open>std::ifstream\<close> opened in binary mode: the bytes of the file, the get position and
  whether the stream is still \<^verbatim>\<open>good()\<close>.  The only operation that spoils the stream is
  a \<^verbatim>\<open>read\<close> that meets the end of the file early; it sets \<^verbatim>\<open>eofbit\<close> and \<^verbatim>\<open>failbit\<close>
  together, so \<^verbatim>\<open>fail()\<close> is the negation of \<^verbatim>\<open>good()\<close> here.
\<close>

record ifstream =
  content :: "byte list"
  gpos :: nat
  good :: bool

definition open_file :: "byte list \<Rightarrow> ifstream" where
  "open_file bytes = \<lparr>content = bytes, gpos = 0, good = True\<rparr>"

text \<open>
  \<^verbatim>\<open>f.read(buf, n)\<close> into a buffer of \<open>n\<close> bytes whose earlier contents are \<open>old\<close>
  (indeterminate for an uninitialised local array, zero for a fresh vector): the bytes
  that are there are stored, the rest of the buffer is left as it was, and a short read
  spoils the stream.  A stream that is not good reads nothing.
\<close>

definition stream_read :: "(nat \<Rightarrow> byte) \<Rightarrow> ifstream \<Rightarrow> nat \<Rightarrow> byte list \<times> ifstream" where
  "stream_read old f n =
     (if good f then
        let got = take n (drop (gpos f) (content f)) in
        (got @ map old [length got..<n],
         f\<lparr>gpos := gpos f + length got, good := (length got = n)\<rparr>)
      else (map old [0..<n], f))"

text \<open>\<^verbatim>\<open>f.tellg()\<close>: \<open>-1\<close> on a failed stream.\<close>

definition tellg :: "ifstream \<Rightarrow> int" where
  "tellg f = (if good f then int (gpos f) else - 1)"

text \<open>
  \<^verbatim>\<open>f.seekg(p, std::ios::beg)\<close>: nothing on a failed stream; a position past the end
  of the file is accepted, a negative one fails.
\<close>

definition seekg :: "ifstream \<Rightarrow> int \<Rightarrow> ifstream" where
  "seekg f p =
     (if good f then (if 0 \<le> p then f\<lparr>gpos := nat p\<rparr> else f\<lparr>good := False\<rparr>) else f)"

text \<open>\<^verbatim>\<open>f.seekg(off, std::ios::cur)\<close>.\<close>

definition seekg_cur :: "ifstream \<Rightarrow> int \<Rightarrow> ifstream" where
  "seekg_cur f off = seekg f (int (gpos f) + off)"

text \<open>
  The contents of the local arrays the readers do not initialise
  (\<^verbatim>\<open>uint8_t buf[4]\<close>, \<^verbatim>\<open>uint8_t buf[8]\<close>, \<^verbatim>\<open>char magic[8]\<close>, \<^verbatim>\<open>Footer footer\<close>): a read
  that comes up short leaves them in the value the function returns.
\<close>

record uninit =
  u_buf4 :: "nat \<Rightarrow> byte"
  u_buf8 :: "nat \<Rightarrow> byte"
  u_magic :: "nat \<Rightarrow> byte"
  u_footer_magic :: "nat \<Rightarrow> byte"
  u_write_complete :: "nat \<Rightarrow> byte"

text \<open>\<^verbatim>\<open>read_u32_le\<close>.\<close>

definition read_u32_le :: "uninit \<Rightarrow> ifstream \<Rightarrow> 32 word \<times> ifstream" where
  "read_u32_le u f =
     (let (buf, f) = stream_read (u_buf4 u) f 4 in
      (ucast (buf ! 0) OR push_bit 8 (ucast (buf ! 1)) OR push_bit 16 (ucast (buf ! 2)) OR
       push_bit 24 (ucast (buf ! 3)), f))"

text \<open>\<^verbatim>\<open>read_u64_le\<close>; \<^verbatim>\<open>read_f64_le\<close> is the same bits taken as a \<^verbatim>\<open>double\<close>.\<close>

definition read_u64_le :: "uninit \<Rightarrow> ifstream \<Rightarrow> 64 word \<times> ifstream" where
  "read_u64_le u f =
     (let (buf, f) = stream_read (u_buf8 u) f 8 in
      (ucast (buf ! 0) OR push_bit 8 (ucast (buf ! 1)) OR push_bit 16 (ucast (buf ! 2)) OR
       push_bit 24 (ucast (buf ! 3)) OR push_bit 32 (ucast (buf ! 4)) OR
       push_bit 40 (ucast (buf ! 5)) OR push_bit 48 (ucast (buf ! 6)) OR
       push_bit 56 (ucast (buf ! 7)), f))"

definition read_f64_le :: "uninit \<Rightarrow> ifstream \<Rightarrow> 64 word \<times> ifstream" where
  "read_f64_le u f = read_u64_le u f"

definition FILE_MAGIC :: "byte list" where
  "FILE_MAGIC = [0x44, 0x45, 0x4c, 0x49, 0x4c, 0x41, 0x30, 0x32]"

definition FOOTER_MAGIC :: "byte list" where
  "FOOTER_MAGIC = [0x44, 0x4c, 0x45, 0x4e, 0x44, 0x30, 0x30, 0x32]"

definition FOOTER_SIZE :: nat where
  "FOOTER_SIZE = 64"

text \<open>
  What the readers write to \<^verbatim>\<open>std::cerr\<close>.  \<open>Abandoned k\<close> is not a message: it marks
  the point at which the run left the defined behaviour of C++ or was ended by an
  exception, and nothing is said about the run after it.
\<close>

datatype diag =
    InvalidFileMagic
  | FileTooSmallForFooter
  | InvalidFooterMagic
  | InvalidBlockLength "32 word"
  | ReadErrorAtBlock int
  | FailedToParseBlock int
  | FailedToParseEvent int
  | Abandoned fault

text \<open>
  \<^verbatim>\<open>read_header\<close> (the same in both files): \<open>None\<close> for \<^verbatim>\<open>false\<close>, else
  \<^verbatim>\<open>header_end_pos\<close>, kept as the signed value \<^verbatim>\<open>tellg\<close> returned.
\<close>

definition read_header :: "uninit \<Rightarrow> ifstream \<Rightarrow> int option \<times> ifstream" where
  "read_header u f =
     (let (magic, f) = stream_read (u_magic u) f 8 in
      if magic \<noteq> FILE_MAGIC then (None, f)
      else
        let (header_len, f) = read_u32_le u f;
            f = seekg_cur f (uint header_len)
        in (Some (tellg f), f))"

text \<open>\<^verbatim>\<open>struct Footer\<close>, without the bytes that are never read.\<close>

record footer =
  data_checksum :: "64 word"
  total_events :: "64 word"
  data_bytes :: "64 word"
  first_event_time_ns :: "64 word"
  last_event_time_ns :: "64 word"
  file_end_time_ns :: "64 word"
  write_complete :: byte

text \<open>
  \<^verbatim>\<open>read_footer\<close>: the warnings it prints, the footer it prints when it returns
  \<^verbatim>\<open>true\<close> (\<open>None\<close> when it returns \<^verbatim>\<open>false\<close>), and the stream.
\<close>

definition read_footer :: "uninit \<Rightarrow> ifstream \<Rightarrow> nat \<Rightarrow> diag list \<times> footer option \<times> ifstream" where
  "read_footer u f file_size =
     (if file_size < FOOTER_SIZE then ([FileTooSmallForFooter], None, f)
      else
        let f = seekg f (int (file_size - FOOTER_SIZE));
            (magic, f) = stream_read (u_footer_magic u) f 8
        in
        if magic \<noteq> FOOTER_MAGIC then ([InvalidFooterMagic], None, f)
        else
          let (cs, f) = read_u64_le u f;
              (te, f) = read_u64_le u f;
              (db, f) = read_u64_le u f;
              (fe, f) = read_f64_le u f;
              (le, f) = read_f64_le u f;
              (ft, f) = read_u64_le u f;
              (wc, f) = stream_read (u_write_complete u) f 1
          in ([], Some \<lparr>data_checksum = cs, total_events = te, data_bytes = db,
                        first_event_time_ns = fe, last_event_time_ns = le,
                        file_end_time_ns = ft, write_complete = wc ! 0\<rparr>, f))"

subsection \<open>The block loop of \<^verbatim>\<open>read_delila\<close>\<close>

text \<open>
  \<^verbatim>\<open>x++\<close> on a signed counter of \<open>w\<close> bits (\<^verbatim>\<open>int\<close>, \<^verbatim>\<open>Long64_t\<close>): \<open>None\<close> when \<open>x\<close>
  is the largest value of the type, where the increment overflows.
\<close>

definition incr :: "nat \<Rightarrow> int \<Rightarrow> int option" where
  "incr w x = (if x = 2 ^ (w - 1) - 1 then None else Some (x + 1))"

text \<open>
  The inner loop \<^verbatim>\<open>for (const auto& ev : events)\<close> that appends to \<^verbatim>\<open>all_events\<close>
  and stops at \<^verbatim>\<open>max_events\<close>.  The memory for the data the readers hold (the block
  buffer of at most 100000000 bytes, the events decoded so far) is taken to be there.
\<close>

fun push_events :: "int \<Rightarrow> event list \<Rightarrow> event list \<Rightarrow> event list" where
  "push_events max_events all_events [] = all_events"
| "push_events max_events all_events (ev # events) =
     (let all_events = all_events @ [ev] in
      if max_events > 0 \<and> to_int (length all_events) \<ge> max_events then all_events
      else push_events max_events all_events events)"

text \<open>The variables of \<^verbatim>\<open>read_delila\<close> that the block loop changes.\<close>

record rd_state =
  rd_f :: ifstream
  all_events :: "event list"
  block_count :: int
  cerr :: "diag list"

text \<open>
  \<^verbatim>\<open>std::vector<uint8_t> block_data(block_len)\<close> followed by
  \<^verbatim>\<open>f.read(block_data.data(), block_len)\<close>: the vector starts as zeros.
\<close>

definition read_block :: "ifstream \<Rightarrow> 32 word \<Rightarrow> byte list \<times> ifstream" where
  "read_block f block_len = stream_read (\<lambda>i. 0) f (unat block_len)"

lemma stream_read_good:
  assumes "stream_read old f n = (buf, f')" and "good f'"
  shows "good f \<and> content f' = content f \<and> gpos f' = gpos f + n \<and>
         (0 < n \<longrightarrow> gpos f' \<le> length (content f)) \<and>
         buf = take n (drop (gpos f) (content f))"
proof -
  from assms have g: "good f"
    by (auto simp: stream_read_def split: if_splits)
  define got where "got = take n (drop (gpos f) (content f))"
  from assms g have f': "f' = f\<lparr>gpos := gpos f + length got, good := (length got = n)\<rparr>"
    and buf: "buf = got @ map old [length got..<n]"
    by (auto simp: stream_read_def got_def Let_def)
  from f' assms(2) have len: "length got = n" by simp
  then have "0 < n \<longrightarrow> gpos f + n \<le> length (content f)"
    unfolding got_def by (auto simp: min_def split: if_splits)
  with g f' buf len show ?thesis
    by (simp add: got_def)
qed

lemma read_u32_le_stream: "snd (read_u32_le u f) = snd (stream_read (u_buf4 u) f 4)"
  by (simp add: read_u32_le_def split_beta)

lemma read_block_advances:
  assumes "read_block (snd (read_u32_le u f)) block_len = (block_data, f')" and "good f'"
    and "block_len \<noteq> 0"
  shows "content f' = content f \<and> gpos f < gpos f' \<and> gpos f' \<le> length (content f)"
proof -
  obtain buf f1 where s1: "stream_read (u_buf4 u) f 4 = (buf, f1)"
    by (cases "stream_read (u_buf4 u) f 4")
  then have f1: "snd (read_u32_le u f) = f1"
    by (simp add: read_u32_le_stream)
  from assms(1) have s2: "stream_read (\<lambda>i. 0) f1 (unat block_len) = (block_data, f')"
    by (simp add: read_block_def f1)
  from stream_read_good [OF s2 assms(2)] have a: "good f1" "content f' = content f1"
    "gpos f' = gpos f1 + unat block_len" "gpos f' \<le> length (content f1)"
    using assms(3) by (simp_all add: unat_gt_0)
  from stream_read_good [OF s1 a(1)] have b: "content f1 = content f" "gpos f1 = gpos f + 4"
    by simp_all
  from a b show ?thesis by simp
qed

text \<open>
  The loop \<^verbatim>\<open>while (f.tellg() < static_cast<std::streampos>(data_end))\<close> of
  \<^verbatim>\<open>read_delila\<close>.  \<open>data_end\<close> is the value of \<^verbatim>\<open>file_size - FOOTER_SIZE\<close> as the
  signed stream offset it is compared as.  \<^verbatim>\<open>block_count\<close> is an \<^verbatim>\<open>int\<close>: the
  increment after the block number \<open>2 ^ 31 - 1\<close> overflows.
\<close>

function read_blocks :: "(nat \<Rightarrow> bool) \<Rightarrow> uninit \<Rightarrow> int \<Rightarrow> int \<Rightarrow> rd_state \<Rightarrow> rd_state" where
  "read_blocks granted u data_end max_events st =
     (if tellg (rd_f st) < data_end then
        let (block_len, f) = read_u32_le u (rd_f st) in
        if block_len = 0 \<or> block_len > 100000000 then
          st\<lparr>rd_f := f, cerr := cerr st @ [InvalidBlockLength block_len]\<rparr>
        else
          let (block_data, f) = read_block f block_len in
          if \<not> good f then
            st\<lparr>rd_f := f, cerr := cerr st @ [ReadErrorAtBlock (block_count st)]\<rparr>
          else
            (case parse_batch granted block_data 0 of
               Failed p \<Rightarrow>
                 st\<lparr>rd_f := f, cerr := cerr st @ [FailedToParseBlock (block_count st)]\<rparr>
             | Fault k \<Rightarrow>
                 st\<lparr>rd_f := f, cerr := cerr st @ [Abandoned k]\<rparr>
             | Done (source_id, events) p \<Rightarrow>
                 let all_events = push_events max_events (all_events st) events in
                 (case incr 32 (block_count st) of
                    None \<Rightarrow>
                      st\<lparr>rd_f := f, all_events := all_events,
                         cerr := cerr st @ [Abandoned SignedOverflow]\<rparr>
                  | Some n \<Rightarrow>
                      let st = st\<lparr>rd_f := f, all_events := all_events, block_count := n\<rparr> in
                      if max_events > 0 \<and> to_int (length all_events) \<ge> max_events then st
                      else read_blocks granted u data_end max_events st))
      else st)"
  by pat_completeness auto
termination
proof (relation "measure (\<lambda>(granted, u, data_end, max_events, st).
          length (content (rd_f st)) - gpos (rd_f st))", goal_cases)
  case 1
  show ?case by simp
next
  case (2 granted u data_end max_events st x block_len f y block_data f' r p se events all_events' n st')
  from 2 have rb: "read_block (snd (read_u32_le u (rd_f st))) block_len = (block_data, f')"
    and g: "good f'" and nz: "block_len \<noteq> 0"
    by (auto simp: prod_eq_iff)
  from read_block_advances [OF rb g nz] 2 show ?case
    by auto
qed

declare read_blocks.simps [simp del]

text \<open>
  \<^verbatim>\<open>read_delila\<close> up to the end of the block loop: the file is given by its bytes and
  is taken to open.  The result is \<^verbatim>\<open>all_events\<close>, \<^verbatim>\<open>block_count\<close> and the messages on
  \<^verbatim>\<open>std::cerr\<close>; the printing and the histograms that follow are left out.
\<close>

definition read_delila :: "(nat \<Rightarrow> bool) \<Rightarrow> uninit \<Rightarrow> byte list \<Rightarrow> int \<Rightarrow> rd_state" where
  "read_delila granted u bytes max_events =
     (let f = open_file bytes;
          file_size = length bytes;
          (header_end_pos, f) = read_header u f
      in
      case header_end_pos of
        None \<Rightarrow> \<lparr>rd_f = f, all_events = [], block_count = 0, cerr = [InvalidFileMagic]\<rparr>
      | Some header_end_pos \<Rightarrow>
          let (warn, ft, f) = read_footer u f file_size;
              data_end = int file_size - int FOOTER_SIZE;
              f = seekg f header_end_pos
          in read_blocks granted u data_end max_events
               \<lparr>rd_f = f, all_events = [], block_count = 0, cerr = warn\<rparr>)"

subsection \<open>The block loop of \<^verbatim>\<open>convert_to_tree\<close>\<close>

text \<open>
  The variables of \<^verbatim>\<open>convert_to_tree\<close> that its loops change.  \<open>tree\<close> holds one
  entry for each \<^verbatim>\<open>tree->Fill()\<close>; \<open>ct_fault\<close> is set when the run has left the
  defined behaviour of C++ (in the parser, or by the overflow of one of the three
  counters), and nothing is said about the run after that.
\<close>

record ct_state =
  ct_f :: ifstream
  ct_br :: branches
  tree :: "branches list"
  event_count :: int
  waveform_count :: int
  ct_block_count :: int
  ct_cerr :: "diag list"
  ct_fault :: "fault option"

text \<open>
  What \<^verbatim>\<open>tree->Fill()\<close> stores: the scalars, and of each array branch
  (\<^verbatim>\<open>analog1[n_analog1]/S\<close> and so on) its first \<open>n\<close> entries.
\<close>

definition fill :: "branches \<Rightarrow> branches" where
  "fill br = br\<lparr>
     b_analog1 := take (nat (b_n_analog1 br)) (b_analog1 br),
     b_analog2 := take (nat (b_n_analog2 br)) (b_analog2 br),
     b_digital1 := take (nat (b_n_digital1 br)) (b_digital1 br),
     b_digital2 := take (nat (b_n_digital2 br)) (b_digital2 br),
     b_digital3 := take (nat (b_n_digital3 br)) (b_digital3 br),
     b_digital4 := take (nat (b_n_digital4 br)) (b_digital4 br)\<rparr>"

text \<open>
  The loop \<^verbatim>\<open>for (size_t i = 0; i < num_events; i++)\<close> over the events of a block.
  \<^verbatim>\<open>event_count\<close> is a \<^verbatim>\<open>Long64_t\<close>, \<^verbatim>\<open>waveform_count\<close> an \<^verbatim>\<open>int\<close>.
\<close>

function ct_events :: "int \<Rightarrow> byte list \<Rightarrow> nat \<Rightarrow> nat \<Rightarrow> nat \<Rightarrow> ct_state \<Rightarrow> ct_state" where
  "ct_events max_events d num_events i pos st =
     (if i < num_events then
        (case parse_event d pos (ct_br st) of
           Failed p \<Rightarrow> st\<lparr>ct_cerr := ct_cerr st @ [FailedToParseEvent (event_count st)]\<rparr>
         | Fault k \<Rightarrow> st\<lparr>ct_fault := Some k\<rparr>
         | Done br p \<Rightarrow>
             let st = st\<lparr>ct_br := br, tree := tree st @ [fill br]\<rparr> in
             (case incr 64 (event_count st) of
                None \<Rightarrow> st\<lparr>ct_fault := Some SignedOverflow\<rparr>
              | Some n \<Rightarrow>
                  let st = st\<lparr>event_count := n\<rparr> in
                  (case (if b_has_waveform br then incr 32 (waveform_count st)
                         else Some (waveform_count st)) of
                     None \<Rightarrow> st\<lparr>ct_fault := Some SignedOverflow\<rparr>
                   | Some n \<Rightarrow>
                       let st = st\<lparr>waveform_count := n\<rparr> in
                       if max_events > 0 \<and> event_count st \<ge> max_events then st
                       else ct_events max_events d num_events (i + 1) p st)))
      else st)"
  by pat_completeness auto
termination
  by (relation "measure (\<lambda>(max_events, d, num_events, i, pos, st). num_events - i)") auto

declare ct_events.simps [simp del]

lemma ct_events_stream: "ct_f (ct_events max_events d num_events i pos st) = ct_f st"
proof (induction "num_events - i" arbitrary: i pos st)
  case 0
  then show ?case
    by (subst ct_events.simps) simp
next
  case (Suc k)
  then have ih: "ct_f (ct_events max_events d num_events (Suc i) p s) = ct_f s" for p s
    by (intro Suc.hyps(1)) simp
  show ?case
    by (subst ct_events.simps) (simp add: Let_def ih split: outcome.splits option.splits)
qed

text \<open>
  The loop \<^verbatim>\<open>while (f.tellg() < static_cast<std::streampos>(data_end))\<close>; its
  \<^verbatim>\<open>block_count\<close> is an \<^verbatim>\<open>int\<close> as well.
\<close>

function ct_blocks :: "uninit \<Rightarrow> int \<Rightarrow> int \<Rightarrow> ct_state \<Rightarrow> ct_state" where
  "ct_blocks u data_end max_events st =
     (if tellg (ct_f st) < data_end then
        let (block_len, f) = read_u32_le u (ct_f st) in
        if block_len = 0 \<or> block_len > 100000000 then
          st\<lparr>ct_f := f, ct_cerr := ct_cerr st @ [InvalidBlockLength block_len]\<rparr>
        else
          let (block_data, f) = read_block f block_len in
          if \<not> good f then
            st\<lparr>ct_f := f, ct_cerr := ct_cerr st @ [ReadErrorAtBlock (ct_block_count st)]\<rparr>
          else
            (case parse_batch_header block_data 0 of
               Failed p \<Rightarrow>
                 st\<lparr>ct_f := f, ct_cerr := ct_cerr st @ [FailedToParseBlock (ct_block_count st)]\<rparr>
             | Fault k \<Rightarrow> st\<lparr>ct_f := f, ct_fault := Some k\<rparr>
             | Done (source_id, num_events) p \<Rightarrow>
                 let st = ct_events max_events block_data num_events 0 p (st\<lparr>ct_f := f\<rparr>) in
                 if ct_fault st \<noteq> None then st
                 else
                   (case incr 32 (ct_block_count st) of
                      None \<Rightarrow> st\<lparr>ct_fault := Some SignedOverflow\<rparr>
                    | Some n \<Rightarrow>
                        let st = st\<lparr>ct_block_count := n\<rparr> in
                        if max_events > 0 \<and> event_count st \<ge> max_events then st
                        else ct_blocks u data_end max_events st))
      else st)"
  by pat_completeness auto
termination
proof (relation "measure (\<lambda>(u, data_end, max_events, st).
          length (content (ct_f st)) - gpos (ct_f st))", goal_cases)
  case 1
  show ?case by simp
next
  case (2 u data_end max_events st x block_len f y block_data f' r p sn num_events st1 n st2)
  from 2 have rb: "read_block (snd (read_u32_le u (ct_f st))) block_len = (block_data, f')"
    and g: "good f'" and nz: "block_len \<noteq> 0"
    by (auto simp: prod_eq_iff)
  from 2 have "ct_f st2 = f'"
    by (simp add: ct_events_stream)
  with read_block_advances [OF rb g nz] show ?case
    by auto
qed

declare ct_blocks.simps [simp del]

text \<open>
  \<^verbatim>\<open>convert_to_tree\<close> up to the end of the block loop.  The input file is given by
  its bytes and is taken to open, as is the output file; \<open>br0\<close> is the state of the
  branch variables before the first event (the six arrays are allocated with
  \<^verbatim>\<open>MAX_WAVEFORM_SAMPLES\<close> entries and not initialised).
\<close>

definition convert_to_tree :: "uninit \<Rightarrow> byte list \<Rightarrow> int \<Rightarrow> branches \<Rightarrow> ct_state" where
  "convert_to_tree u bytes max_events br0 =
     (let f = open_file bytes;
          file_size = length bytes;
          (header_end_pos, f) = read_header u f;
          st0 = \<lparr>ct_f = f, ct_br = br0, tree = [], event_count = 0, waveform_count = 0,
                 ct_block_count = 0, ct_cerr = [], ct_fault = None\<rparr>
      in
      case header_end_pos of
        None \<Rightarrow> st0\<lparr>ct_cerr := [InvalidFileMagic]\<rparr>
      | Some header_end_pos \<Rightarrow>
          let data_end = int file_size - int FOOTER_SIZE;
              f = seekg f header_end_pos
          in ct_blocks u data_end max_events (st0\<lparr>ct_f := f\<rparr>))"

section \<open>Initial branch variables\<close>

text \<open>
  Branch variables as \<^verbatim>\<open>convert_to_tree\<close> allocates them, with every scalar and every
  array entry zero: the six arrays have \<^verbatim>\<open>MAX_WAVEFORM_SAMPLES\<close> entries.
\<close>

definition br_zero :: branches where
  "br_zero = \<lparr>b_module = 0, b_channel = 0, b_energy = 0, b_energy_short = 0,
     b_timestamp_ns = 0, b_flags = 0, b_has_waveform = False,
     b_n_analog1 = 0, b_n_analog2 = 0, b_n_digital1 = 0, b_n_digital2 = 0,
     b_n_digital3 = 0, b_n_digital4 = 0,
     b_analog1 = replicate 16384 0, b_analog2 = replicate 16384 0,
     b_digital1 = replicate 16384 0, b_digital2 = replicate 16384 0,
     b_digital3 = replicate 16384 0, b_digital4 = replicate 16384 0,
     b_time_resolution = 0, b_trigger_threshold = 0\<rparr>"

section \<open>The MessagePack encodings\<close>

text \<open>
  Modelled from the spec: the encoder is the recorder, which is not under \<^verbatim>\<open>src/\<close>.
  Section 4.2 of the specification names the encodings the decoder recognises: the
  unsigned tags \<open>0xcc\<close> to \<open>0xcf\<close> and the signed tags \<open>0xd0\<close> to \<open>0xd2\<close>, each followed
  by the value in 1, 2, 4 or 8 bytes, big-endian.  A fixint is the value itself as the
  single byte.
\<close>

definition enc_uint8 :: "byte \<Rightarrow> byte list" where
  "enc_uint8 v = [0xcc, v]"

definition enc_uint16 :: "16 word \<Rightarrow> byte list" where
  "enc_uint16 v = [0xcd, ucast (drop_bit 8 v), ucast v]"

definition enc_uint32 :: "32 word \<Rightarrow> byte list" where
  "enc_uint32 v = [0xce, ucast (drop_bit 24 v), ucast (drop_bit 16 v), ucast (drop_bit 8 v), ucast v]"

definition enc_uint64 :: "64 word \<Rightarrow> byte list" where
  "enc_uint64 v = [0xcf, ucast (drop_bit 56 v), ucast (drop_bit 48 v), ucast (drop_bit 40 v),
     ucast (drop_bit 32 v), ucast (drop_bit 24 v), ucast (drop_bit 16 v), ucast (drop_bit 8 v),
     ucast v]"

definition enc_int8 :: "byte \<Rightarrow> byte list" where
  "enc_int8 v = [0xd0, v]"

definition enc_int16 :: "16 word \<Rightarrow> byte list" where
  "enc_int16 v = [0xd1, ucast (drop_bit 8 v), ucast v]"

definition enc_int32 :: "32 word \<Rightarrow> byte list" where
  "enc_int32 v = [0xd2, ucast (drop_bit 24 v), ucast (drop_bit 16 v), ucast (drop_bit 8 v), ucast v]"

section \<open>Example records\<close>

text \<open>
  What \<^verbatim>\<open>parse_event\<close> of \<^verbatim>\<open>convert_to_tree.C\<close> leaves in the branch variables for an
  event without waveform whose six fields are those of \<open>ev\<close>.
\<close>

definition no_waveform :: "branches \<Rightarrow> event \<Rightarrow> branches" where
  "no_waveform br ev = br\<lparr>b_module := module ev, b_channel := channel ev,
     b_energy := energy ev, b_energy_short := energy_short ev,
     b_timestamp_ns := timestamp_ns ev, b_flags := flags ev, b_has_waveform := False,
     b_n_analog1 := 0, b_n_analog2 := 0, b_n_digital1 := 0, b_n_digital2 := 0,
     b_n_digital3 := 0, b_n_digital4 := 0, b_time_resolution := 0, b_trigger_threshold := 0\<rparr>"

text \<open>
  The event of the end-to-end example of the specification (module 1, channel 2,
  energy 100, short energy 50, time stamp 1234.5, flags 0) as a six-element array, the
  same event as a seven-element array with a waveform of six empty probes, and an array
  of five elements.
\<close>

definition event6_example :: "byte list" where
  "event6_example =
     [0x96, 1, 2, 100, 50, 0xcb, 0x40, 0x93, 0x4a, 0, 0, 0, 0, 0, 0]"

definition event7_example :: "byte list" where
  "event7_example =
     [0x97, 1, 2, 100, 50, 0xcb, 0x40, 0x93, 0x4a, 0, 0, 0, 0, 0, 0,
      0x98, 0x90, 0x90, 0x90, 0x90, 0x90, 0x90, 0, 0]"

definition event5_example :: "byte list" where
  "event5_example = [0x95, 1, 2, 100, 50, 0]"

text \<open>
  A block of one event with waveform that is cut off behind the first digital probe, an
  empty \<^verbatim>\<open>bin8\<close> string: the batch header (source 1, one event), the six fields of the
  example event, the waveform header, two empty analog probes and the bytes \<open>c4 00\<close>.
\<close>

definition cut_block :: "byte list" where
  "cut_block = [0x94, 1, 0, 0, 0x91] @ take 18 event7_example @ [0xc4, 0]"

section \<open>Reference functions for the sample decoders\<close>

text \<open>
  The position behind \<open>k\<close> consecutive integers decoded from \<open>pos\<close> on with
  \<^verbatim>\<open>read_int\<close>, respectively \<^verbatim>\<open>read_uint\<close>: the byte that follows a complete encoded
  sequence of \<open>k\<close> elements.  \<open>None\<close> when one of them does not decode.
\<close>

fun after_ints :: "byte list \<Rightarrow> nat \<Rightarrow> nat \<Rightarrow> nat option" where
  "after_ints d 0 pos = Some pos"
| "after_ints d (Suc k) pos =
     (case read_int d pos of Done v p \<Rightarrow> after_ints d k p | Failed p \<Rightarrow> None | Fault f \<Rightarrow> None)"

fun after_uints :: "byte list \<Rightarrow> nat \<Rightarrow> nat \<Rightarrow> nat option" where
  "after_uints d 0 pos = Some pos"
| "after_uints d (Suc k) pos =
     (case read_uint d pos of Done v p \<Rightarrow> after_uints d k p | Failed p \<Rightarrow> None | Fault f \<Rightarrow> None)"

text \<open>
  A \<^verbatim>\<open>bin16\<close> string that declares 16385 bytes, one more than
  \<^verbatim>\<open>MAX_WAVEFORM_SAMPLES\<close>, and a buffer with an array of three small integers followed
  by a \<^verbatim>\<open>bin8\<close> string of three bytes, for a destination of two entries.
\<close>

definition big_bin_example :: "byte list" where
  "big_bin_example = [0xc5, 0x40, 0x01] @ replicate 16385 0x5a"

definition small_cap_example :: "byte list" where
  "small_cap_example = [0x93, 1, 2, 3, 0xc4, 3, 7, 8, 9]"

section \<open>The two encodings of a digital probe\<close>

text \<open>
  Modelled from the spec: the encoder is the recorder, which is not under \<^verbatim>\<open>src/\<close>.
  A sequence of 8-bit samples is written either as a \<^verbatim>\<open>bin8\<close> byte string (tag \<open>0xc4\<close>,
  one length byte, the bytes) or as a MessagePack array of unsigned integers: an array
  header (fixarray \<open>0x90\<close> to \<open>0x9f\<close>, array16 \<open>0xdc\<close>, array32 \<open>0xdd\<close>, sections 4.2 and 6
  of the specification) followed by each sample as a positive fixint when it is at most
  \<open>0x7f\<close> and as \<open>0xcc\<close> and the byte otherwise.
\<close>

definition enc_bin8 :: "byte list \<Rightarrow> byte list" where
  "enc_bin8 xs = [0xc4, of_nat (length xs)] @ xs"

definition enc_u8 :: "byte \<Rightarrow> byte list" where
  "enc_u8 v = (if v \<le> 0x7f then [v] else enc_uint8 v)"

definition enc_array_header :: "nat \<Rightarrow> byte list" where
  "enc_array_header n =
     (if n < 16 then [0x90 OR of_nat n]
      else if n < 65536 then
        (let w = of_nat n :: 16 word in [0xdc, ucast (drop_bit 8 w), ucast w])
      else
        (let w = of_nat n :: 32 word in
         [0xdd, ucast (drop_bit 24 w), ucast (drop_bit 16 w), ucast (drop_bit 8 w), ucast w]))"

definition enc_u8_array :: "byte list \<Rightarrow> byte list" where
  "enc_u8_array xs = enc_array_header (length xs) @ concat (map enc_u8 xs)"

section \<open>The file layout\<close>

text \<open>
  Modelled from the spec: the writer is the recorder, which is not under \<^verbatim>\<open>src/\<close>.
  Section 6 of the specification gives the layout: the magic \<^verbatim>\<open>DELILA02\<close>, the length of
  the header as a 32-bit little-endian number, the header, the blocks, each a 32-bit
  little-endian length followed by that many bytes, and a trailer of 64 bytes.
\<close>

definition le32 :: "nat \<Rightarrow> byte list" where
  "le32 n = (let w = of_nat n :: 32 word in
     [ucast w, ucast (drop_bit 8 w), ucast (drop_bit 16 w), ucast (drop_bit 24 w)])"

definition frame :: "byte list \<Rightarrow> byte list" where
  "frame b = le32 (length b) @ b"

definition delila_file :: "byte list \<Rightarrow> byte list list \<Rightarrow> byte list \<Rightarrow> byte list" where
  "delila_file hdr blocks trailer =
     FILE_MAGIC @ le32 (length hdr) @ hdr @ concat (map frame blocks) @ trailer"

text \<open>
  The events decoded from the data region, block by block in file order: what the block
  loop of \<^verbatim>\<open>read_delila\<close> does with the payloads once they are cut out of the file.
  The result is the list of events, the number of blocks parsed and the messages.
\<close>

fun decode_blocks ::
  "(nat \<Rightarrow> bool) \<Rightarrow> int \<Rightarrow> byte list list \<Rightarrow> event list \<Rightarrow> int \<Rightarrow>
     event list \<times> int \<times> diag list" where
  "decode_blocks granted max_events [] evs bc = (evs, bc, [])"
| "decode_blocks granted max_events (b # bs) evs bc =
     (case parse_batch granted b 0 of
        Failed p \<Rightarrow> (evs, bc, [FailedToParseBlock bc])
      | Fault k \<Rightarrow> (evs, bc, [Abandoned k])
      | Done (source_id, events) p \<Rightarrow>
          let evs = push_events max_events evs events in
          if max_events > 0 \<and> to_int (length evs) \<ge> max_events then (evs, bc + 1, [])
          else decode_blocks granted max_events bs evs (bc + 1))"

text \<open>The events of one block: those \<^verbatim>\<open>parse_batch\<close> decodes from its payload.\<close>

definition block_events :: "(nat \<Rightarrow> bool) \<Rightarrow> byte list \<Rightarrow> event list" where
  "block_events granted b =
     (case parse_batch granted b 0 of
        Done (source_id, events) p \<Rightarrow> events
      | Failed p \<Rightarrow> []
      | Fault k \<Rightarrow> [])"

text \<open>
  The batch of the end-to-end example of the specification (source 1, one event), and the
  local buffers of the readers with every byte zero.
\<close>

definition batch_example :: "byte list" where
  "batch_example = [0x94, 1, 0, 0, 0x91] @ event6_example"

definition uninit_zero :: uninit where
  "uninit_zero = \<lparr>u_buf4 = (\<lambda>i. 0), u_buf8 = (\<lambda>i. 0), u_magic = (\<lambda>i. 0),
     u_footer_magic = (\<lambda>i. 0), u_write_complete = (\<lambda>i. 0)\<rparr>"

text \<open>
  A stream that stands before a block length of 0 which is followed by a well-formed block
  and a trailer, and the variables of the two block loops on entry with that stream.
\<close>

definition zero_length_stream :: ifstream where
  "zero_length_stream =
     \<lparr>content = le32 0 @ frame batch_example @ replicate 64 0, gpos = 0, good = True\<rparr>"

definition zero_length_rd :: rd_state where
  "zero_length_rd = \<lparr>rd_f = zero_length_stream, all_events = [], block_count = 0, cerr = []\<rparr>"

definition zero_length_ct :: ct_state where
  "zero_length_ct = \<lparr>ct_f = zero_length_stream, ct_br = br_zero, tree = [], event_count = 0,
     waveform_count = 0, ct_block_count = 0, ct_cerr = [], ct_fault = None\<rparr>"

section \<open>Properties\<close>

text \<open>
  \<open>advances d pos r\<close>: the call that started at \<open>pos\<close> returned without touching memory
  outside an array, and whether it returned \<^verbatim>\<open>true\<close> or \<^verbatim>\<open>false\<close> the read position
  it left is not before \<open>pos\<close> and not past the end of the buffer.
\<close>

definition advances :: "byte list \<Rightarrow> nat \<Rightarrow> 'a outcome \<Rightarrow> bool" where
  "advances d pos r =
     (case r of Done v p \<Rightarrow> pos \<le> p \<and> p \<le> length d
              | Failed p \<Rightarrow> pos \<le> p \<and> p \<le> length d
              | Fault k \<Rightarrow> False)"


subsection \<open>Where the primitives leave the read position\<close>

lemma advances_and_then:
  assumes "advances d pos r"
    and "\<And>v p. r = Done v p \<Longrightarrow> pos \<le> p \<Longrightarrow> p \<le> length d \<Longrightarrow> advances d p (k v p)"
  shows "advances d pos (and_then r k)"
proof (cases r)
  case (Done v p)
  with assms(1) have p: "pos \<le> p" "p \<le> length d" by (simp_all add: advances_def)
  from assms(2) [OF Done p] have "advances d p (k v p)" .
  with p show ?thesis using Done
    by (auto simp: advances_def and_then_def split: outcome.splits)
qed (use assms(1) in \<open>auto simp: and_then_def advances_def\<close>)

lemma advances_Done: "pos \<le> p \<Longrightarrow> p \<le> length d \<Longrightarrow> advances d pos (Done v p)"
  by (simp add: advances_def)

lemma advances_Failed: "pos \<le> p \<Longrightarrow> p \<le> length d \<Longrightarrow> advances d pos (Failed p)"
  by (simp add: advances_def)

lemma read_array_header_Failed:
  "read_array_header d pos = Failed p' \<Longrightarrow> (length d \<le> pos \<and> p' = pos) \<or> (pos < length d \<and> p' = pos + 1)"
  by (auto simp: read_array_header_def idx_def Let_def split: if_splits)

lemma read_array_header_no_Fault: "read_array_header d pos \<noteq> Fault k"
  by (auto simp: read_array_header_def idx_def Let_def split: if_splits)

lemma read_array_header_Done: "read_array_header d pos = Done v p' \<Longrightarrow> pos < p' \<and> p' \<le> length d"
  by (auto simp: read_array_header_def idx_def Let_def split: if_splits)

lemma read_uint_Failed:
  "read_uint d pos = Failed p' \<Longrightarrow> (length d \<le> pos \<and> p' = pos) \<or> (pos < length d \<and> p' = pos + 1)"
  by (auto simp: read_uint_def idx_def Let_def split: if_splits)

lemma read_uint_no_Fault: "read_uint d pos \<noteq> Fault k"
  by (auto simp: read_uint_def idx_def Let_def split: if_splits)

lemma read_uint_Done: "read_uint d pos = Done v p' \<Longrightarrow> pos < p' \<and> p' \<le> length d"
  by (auto simp: read_uint_def idx_def Let_def split: if_splits)

lemma read_int_Failed:
  "read_int d pos = Failed p' \<Longrightarrow> (length d \<le> pos \<and> p' = pos) \<or> (pos < length d \<and> p' = pos + 1)"
  by (auto simp: read_int_def and_then_def idx_def Let_def split: if_splits outcome.splits dest: read_uint_Failed)

lemma read_int_no_Fault: "read_int d pos \<noteq> Fault k"
  by (auto simp: read_int_def and_then_def idx_def Let_def read_uint_no_Fault split: if_splits outcome.splits)

lemma read_int_Done: "read_int d pos = Done v p' \<Longrightarrow> pos < p' \<and> p' \<le> length d"
  by (auto simp: read_int_def and_then_def idx_def Let_def split: if_splits outcome.splits dest: read_uint_Done)

lemma read_float64_Failed:
  "read_float64 d pos = Failed p' \<Longrightarrow> (length d \<le> pos \<and> p' = pos) \<or> (pos < length d \<and> p' = pos + 1)"
  by (auto simp: read_float64_def idx_def Let_def split: if_splits)

lemma read_float64_no_Fault: "read_float64 d pos \<noteq> Fault k"
  by (auto simp: read_float64_def idx_def Let_def split: if_splits)

lemma read_float64_Done: "read_float64 d pos = Done v p' \<Longrightarrow> pos < p' \<and> p' \<le> length d"
  by (auto simp: read_float64_def idx_def Let_def split: if_splits)

lemma advances_read_array_header: "pos \<le> length d \<Longrightarrow> advances d pos (read_array_header d pos)"
  by (cases "read_array_header d pos")
    (auto simp: advances_def read_array_header_no_Fault dest: read_array_header_Done read_array_header_Failed)

lemma advances_read_uint: "pos \<le> length d \<Longrightarrow> advances d pos (read_uint d pos)"
  by (cases "read_uint d pos")
    (auto simp: advances_def read_uint_no_Fault dest: read_uint_Done read_uint_Failed)

lemma advances_read_int: "pos \<le> length d \<Longrightarrow> advances d pos (read_int d pos)"
  by (cases "read_int d pos")
    (auto simp: advances_def read_int_no_Fault dest: read_int_Done read_int_Failed)

lemma advances_read_float64: "pos \<le> length d \<Longrightarrow> advances d pos (read_float64 d pos)"
  by (cases "read_float64 d pos")
    (auto simp: advances_def read_float64_no_Fault dest: read_float64_Done read_float64_Failed)

lemma to_int_small: "x < 2 ^ 31 \<Longrightarrow> to_int x = int x"
  unfolding to_int_def
  by (simp add: signed_of_nat signed_take_bit_int_eq_self)


lemma unat_of_small_int: "0 \<le> n \<Longrightarrow> n < 2 ^ 64 \<Longrightarrow> unat (word_of_int n :: 64 word) = nat n"
  by (simp add: unsigned_of_int take_bit_int_eq_self)

lemma read_bin_Failed:
  "read_bin d pos arr m = Failed p' \<Longrightarrow> (length d \<le> pos \<and> p' = pos) \<or>
     (pos < length d \<and> p' \<in> {pos + 1, pos + 2, pos + 3, pos + 5} \<and> p' \<le> length d)"
  by (auto simp: read_bin_def read_bin_size_def and_then_def idx_def Let_def memcpy_from_def split: if_splits outcome.splits)

lemma read_bin_Done:
  "read_bin d pos arr m = Done v p' \<Longrightarrow> pos < p' \<and> p' \<le> length d"
  by (auto simp: read_bin_def read_bin_size_def and_then_def idx_def Let_def memcpy_from_def split: if_splits outcome.splits)

lemma memcpy_from_ok:
  assumes "pos + sz \<le> length d" and "length d < 2 ^ 31" and "0 \<le> max_size"
    and "nat max_size \<le> length arr"
  shows "memcpy_from arr d pos (min (to_int sz) max_size) k =
           k (take (min sz (nat max_size)) (drop pos d) @ drop (min sz (nat max_size)) arr)"
proof -
  from assms have sz: "sz < 2 ^ 31" by simp
  then have ti: "to_int sz = int sz" by (rule to_int_small)
  define n where "n = min (int sz) max_size"
  have n: "0 \<le> n" "n < 2 ^ 64" "nat n = min sz (nat max_size)" "nat n \<le> sz" "nat n \<le> length arr"
    using assms sz by (auto simp: n_def min_def)
  have cnt: "unat (word_of_int n :: 64 word) = nat n"
    using n by (simp add: unat_of_small_int)
  have a: "\<not> pos + nat n > length d" "\<not> nat n > length arr"
    using n assms(1) by auto
  have "memcpy_from arr d pos n k = k (take (nat n) (drop pos d) @ drop (nat n) arr)"
    unfolding memcpy_from_def Let_def cnt using a by (simp only: if_False)
  then show ?thesis
    by (simp only: ti n_def [symmetric] n(3) [symmetric])
qed

lemma read_bin_no_Fault:
  assumes "length d < 2 ^ 31" and "0 \<le> max_size" and "nat max_size \<le> length arr"
  shows "read_bin d pos arr max_size \<noteq> Fault k"
  using assms
  by (auto simp: read_bin_def read_bin_size_def and_then_def idx_def Let_def memcpy_from_ok split: if_splits outcome.splits)


lemma advances_read_bin:
  assumes "pos \<le> length d" and "length d < 2 ^ 31" and "0 \<le> max_size"
    and "nat max_size \<le> length arr"
  shows "advances d pos (read_bin d pos arr max_size)"
proof (cases "read_bin d pos arr max_size")
  case (Done v p)
  with read_bin_Done [OF Done] show ?thesis by (simp add: advances_def)
next
  case (Failed p)
  with read_bin_Failed [OF Failed] assms(1) show ?thesis by (auto simp: advances_def)
next
  case (Fault k)
  with read_bin_no_Fault [OF assms(2-4)] show ?thesis by simp
qed

lemma i16_loop_advances:
  "pos \<le> length d \<Longrightarrow> length d < 2 ^ 31 \<Longrightarrow> i \<le> pos \<Longrightarrow> nat max_size \<le> length arr \<Longrightarrow>
   advances d pos (i16_loop d sz max_size i pos arr)"
proof (induction d sz max_size i pos arr rule: i16_loop.induct)
  case (1 d sz max_size i pos arr)
  show ?case
  proof (cases "i < sz")
    case False
    with "1.prems" show ?thesis
      by (simp add: i16_loop.simps [of d sz max_size i pos arr] advances_def)
  next
    case True
    have "advances d pos (and_then (read_int d pos) (\<lambda>val pos.
          if to_int i < max_size then
            (if i < length arr then i16_loop d sz max_size (i + 1) pos (arr[i := ucast val])
             else Fault DestOverflow)
          else i16_loop d sz max_size (i + 1) pos arr))"
    proof (rule advances_and_then)
      show "advances d pos (read_int d pos)"
        using "1.prems"(1) by (rule advances_read_int)
    next
      fix v p
      assume rd: "read_int d pos = Done v p"
      from read_int_Done [OF rd] have p: "pos < p" "p \<le> length d" by simp_all
      with "1.prems" have i: "i < 2 ^ 31" "i + 1 \<le> p" by simp_all
      show "advances d p (if to_int i < max_size then
            (if i < length arr then i16_loop d sz max_size (i + 1) p (arr[i := ucast v])
             else Fault DestOverflow)
          else i16_loop d sz max_size (i + 1) p arr)"
      proof (cases "to_int i < max_size")
        case st: True
        with i(1) "1.prems"(4) have "i < length arr"
          by (simp add: to_int_small)
        then have "advances d p (i16_loop d sz max_size (i + 1) p (arr[i := ucast v]))"
          using True st p i "1.prems" by (intro "1.IH"(1)) simp_all
        with st \<open>i < length arr\<close> show ?thesis
          by simp
      next
        case st: False
        have "advances d p (i16_loop d sz max_size (i + 1) p arr)"
          using True st p i "1.prems" by (intro "1.IH"(2)) simp_all
        with st show ?thesis
          by simp
      qed
    qed
    with True show ?thesis
      by (simp add: i16_loop.simps [of d sz max_size i pos arr])
  qed
qed

lemma u8_loop_advances:
  "pos \<le> length d \<Longrightarrow> length d < 2 ^ 31 \<Longrightarrow> i \<le> pos \<Longrightarrow> nat max_size \<le> length arr \<Longrightarrow>
   advances d pos (u8_loop d sz max_size i pos arr)"
proof (induction d sz max_size i pos arr rule: u8_loop.induct)
  case (1 d sz max_size i pos arr)
  show ?case
  proof (cases "i < sz")
    case False
    with "1.prems" show ?thesis
      by (simp add: u8_loop.simps [of d sz max_size i pos arr] advances_def)
  next
    case True
    have "advances d pos (and_then (read_uint d pos) (\<lambda>val pos.
          if to_int i < max_size then
            (if i < length arr then u8_loop d sz max_size (i + 1) pos (arr[i := ucast val])
             else Fault DestOverflow)
          else u8_loop d sz max_size (i + 1) pos arr))"
    proof (rule advances_and_then)
      show "advances d pos (read_uint d pos)"
        using "1.prems"(1) by (rule advances_read_uint)
    next
      fix v p
      assume rd: "read_uint d pos = Done v p"
      from read_uint_Done [OF rd] have p: "pos < p" "p \<le> length d" by simp_all
      with "1.prems" have i: "i < 2 ^ 31" "i + 1 \<le> p" by simp_all
      show "advances d p (if to_int i < max_size then
            (if i < length arr then u8_loop d sz max_size (i + 1) p (arr[i := ucast v])
             else Fault DestOverflow)
          else u8_loop d sz max_size (i + 1) p arr)"
      proof (cases "to_int i < max_size")
        case st: True
        with i(1) "1.prems"(4) have "i < length arr"
          by (simp add: to_int_small)
        then have "advances d p (u8_loop d sz max_size (i + 1) p (arr[i := ucast v]))"
          using True st p i "1.prems" by (intro "1.IH"(1)) simp_all
        with st \<open>i < length arr\<close> show ?thesis
          by simp
      next
        case st: False
        have "advances d p (u8_loop d sz max_size (i + 1) p arr)"
          using True st p i "1.prems" by (intro "1.IH"(2)) simp_all
        with st show ?thesis
          by simp
      qed
    qed
    with True show ?thesis
      by (simp add: u8_loop.simps [of d sz max_size i pos arr])
  qed
qed


lemma advances_read_i16_array:
  assumes "pos \<le> length d" and "length d < 2 ^ 31" and "nat max_size \<le> length arr"
  shows "advances d pos (read_i16_array d pos arr max_size)"
  unfolding read_i16_array_def Let_def
  by (intro advances_and_then advances_read_array_header i16_loop_advances advances_Done assms)
     simp_all

lemma advances_read_u8_array:
  assumes "pos \<le> length d" and "length d < 2 ^ 31" and "0 \<le> max_size"
    and "nat max_size \<le> length arr"
  shows "advances d pos (read_u8_array d pos arr max_size)"
proof (cases "pos \<ge> length d")
  case True
  with assms(1) show ?thesis by (simp add: read_u8_array_def advances_def)
next
  case False
  have "advances d pos (and_then (read_array_header d pos) (\<lambda>size pos.
            let n = min (to_int size) max_size in
            and_then (u8_loop d size max_size 0 pos arr) (\<lambda>arr pos. Done (n, arr) pos)))"
    unfolding Let_def
    by (intro advances_and_then advances_read_array_header u8_loop_advances advances_Done assms)
       simp_all
  with False advances_read_bin [OF assms] show ?thesis
    by (simp add: read_u8_array_def idx_def)
qed

lemma advances_parse_waveform:
  assumes "pos \<le> length d" and "length d < 2 ^ 31"
    and "nat MAX_WAVEFORM_SAMPLES \<le> length (b_analog1 br)"
    and "nat MAX_WAVEFORM_SAMPLES \<le> length (b_analog2 br)"
    and "nat MAX_WAVEFORM_SAMPLES \<le> length (b_digital1 br)"
    and "nat MAX_WAVEFORM_SAMPLES \<le> length (b_digital2 br)"
    and "nat MAX_WAVEFORM_SAMPLES \<le> length (b_digital3 br)"
    and "nat MAX_WAVEFORM_SAMPLES \<le> length (b_digital4 br)"
  shows "advances d pos (parse_waveform d pos br)"
  using assms unfolding parse_waveform_def Let_def split_beta
  by (auto intro!: advances_and_then advances_read_array_header advances_read_i16_array
        advances_read_u8_array advances_read_uint advances_Done advances_Failed
      simp: MAX_WAVEFORM_SAMPLES_def)

lemma advances_parse_event:
  assumes "pos \<le> length d" and "length d < 2 ^ 31"
    and "nat MAX_WAVEFORM_SAMPLES \<le> length (b_analog1 br)"
    and "nat MAX_WAVEFORM_SAMPLES \<le> length (b_analog2 br)"
    and "nat MAX_WAVEFORM_SAMPLES \<le> length (b_digital1 br)"
    and "nat MAX_WAVEFORM_SAMPLES \<le> length (b_digital2 br)"
    and "nat MAX_WAVEFORM_SAMPLES \<le> length (b_digital3 br)"
    and "nat MAX_WAVEFORM_SAMPLES \<le> length (b_digital4 br)"
  shows "advances d pos (parse_event d pos br)"
  using assms unfolding parse_event_def Let_def
  by (auto intro!: advances_and_then advances_read_array_header advances_read_float64
        advances_read_uint advances_Done advances_Failed advances_parse_waveform)

lemma advances_parse_batch_header:
  assumes "pos \<le> length d"
  shows "advances d pos (parse_batch_header d pos)"
  using assms unfolding parse_batch_header_def
  by (auto intro!: advances_and_then advances_read_array_header
        advances_read_uint advances_Done advances_Failed)

lemma advances_parse_event_minimal:
  assumes "pos \<le> length d"
  shows "advances d pos (parse_event_minimal d pos)"
  using assms unfolding parse_event_minimal_def Let_def
  by (auto intro!: advances_and_then advances_read_array_header advances_read_float64
        advances_read_uint advances_Done advances_Failed)

lemma advances_batch_events:
  "pos \<le> length d \<Longrightarrow> advances d pos (batch_events d num_events i pos events)"
proof (induction d num_events i pos events rule: batch_events.induct)
  case (1 d num_events i pos events)
  show ?case
  proof (cases "i < num_events")
    case False
    with "1.prems" show ?thesis
      by (simp add: batch_events.simps [of d num_events i pos events] advances_def)
  next
    case True
    have "advances d pos (and_then (parse_event_minimal d pos) (\<lambda>ev pos.
          batch_events d num_events (i + 1) pos (events @ [ev])))"
      using True "1.prems"
      by (intro advances_and_then advances_parse_event_minimal "1.IH") simp_all
    with True show ?thesis
      by (simp add: batch_events.simps [of d num_events i pos events])
  qed
qed

lemma advances_parse_batch_granted:
  assumes "pos \<le> length d"
  shows "advances d pos (parse_batch (\<lambda>n. True) d pos)"
  using assms unfolding parse_batch_def
  by (auto intro!: advances_and_then advances_read_array_header advances_batch_events
        advances_read_uint advances_Done advances_Failed)

lemma parse_batch_refused:
  "parse_batch granted d pos = parse_batch (\<lambda>n. True) d pos \<or>
   parse_batch granted d pos = Fault AllocFailure"
  unfolding parse_batch_def
  by (auto simp: and_then_def split: outcome.splits)

lemma advances_parse_batch:
  assumes "pos \<le> length d"
  shows "advances d pos (parse_batch granted d pos) \<or>
         parse_batch granted d pos = Fault AllocFailure"
  using advances_parse_batch_granted [OF assms] parse_batch_refused [of granted d pos]
  by auto

subsection \<open>C1: the read position after a failed read\<close>

text \<open>
  C1, as stated (a failed primitive never moves the read position), does not hold: each
  primitive but \<^verbatim>\<open>read_int\<close> consumes the tag byte with \<^verbatim>\<open>data_[pos_++]\<close> before it
  checks that the bytes the tag announces are there, \<^verbatim>\<open>read_int\<close> falls back to
  \<^verbatim>\<open>read_uint\<close>, and \<^verbatim>\<open>read_bin\<close> has also consumed the length field when the payload
  turns out to be truncated.  Five truncated inputs, one for each primitive:
\<close>

theorem failed_read_counterexample:
  "read_array_header [0xdc, 0x00] 0 = Failed 1 \<and>
   read_uint [0xcc] 0 = Failed 1 \<and>
   read_int [0xd1, 0x00] 0 = Failed 1 \<and>
   read_float64 [0xcb, 0, 0, 0] 0 = Failed 1 \<and>
   read_bin [0xc4, 5, 1, 2] 0 [0, 0] 2 = Failed 2"
  by (simp add: read_array_header_def read_uint_def read_int_def read_float64_def read_bin_def read_bin_size_def
      idx_def and_then_def to_int_def)

lemma read_bin_size_Failed:
  "read_bin_size d pos = Failed p \<Longrightarrow> p = (if pos < length d then pos + 1 else pos)"
  by (auto simp: read_bin_size_def idx_def Let_def split: if_splits)

lemma read_bin_size_Done:
  "read_bin_size d pos = Done sz p1 \<Longrightarrow>
     p1 \<le> length d \<and>
     (d ! pos = 0xc4 \<and> p1 = pos + 2 \<or> d ! pos = 0xc5 \<and> p1 = pos + 3 \<or>
      d ! pos = 0xc6 \<and> p1 = pos + 5)"
  by (auto simp: read_bin_size_def idx_def Let_def split: if_splits)

lemma read_bin_no_length:
  "read_bin_size d pos = Failed p \<Longrightarrow> read_bin d pos arr max_size = Failed p"
  by (simp add: read_bin_def and_then_def)

lemma read_bin_cut_payload:
  "read_bin_size d pos = Done sz p1 \<Longrightarrow> length d < p1 + sz \<Longrightarrow>
   read_bin d pos arr max_size = Failed p1"
  by (simp add: read_bin_def and_then_def Let_def)

lemma read_bin_Failed_why:
  "read_bin d pos arr max_size = Failed p \<Longrightarrow>
   read_bin_size d pos = Failed p \<or> (\<exists>sz. read_bin_size d pos = Done sz p \<and> length d < p + sz)"
  by (auto simp: read_bin_def and_then_def Let_def memcpy_from_def
      split: outcome.splits if_splits)

lemma Failed_where:
  "(length d \<le> pos \<and> p = pos) \<or> (pos < length d \<and> p = pos + 1) \<Longrightarrow>
   p = (if pos < length d then pos + 1 else pos)"
  by auto

text \<open>
  C1, amended: a primitive that fails with no byte left at the read position leaves the
  position unchanged.  One that fails with a byte left (an unknown tag, or a tag whose
  length field or payload is cut short) has consumed the tag byte:
  \<^verbatim>\<open>read_array_header\<close>, \<^verbatim>\<open>read_uint\<close>, \<^verbatim>\<open>read_int\<close> and \<^verbatim>\<open>read_float64\<close> leave the
  position one byte further.  \<^verbatim>\<open>read_bin\<close> fails in exactly two ways.  When its tag and
  length field do not decode (\<open>read_bin_size\<close> fails) it leaves the position where they
  left it, one byte further.  When they decode to the declared length \<open>sz\<close> and fewer
  than \<open>sz\<close> bytes follow, it leaves the position just behind the length field: 2, 3 or
  5 bytes further for the tags \<open>0xc4\<close>, \<open>0xc5\<close> and \<open>0xc6\<close>, and not past the end of the
  buffer.
\<close>

theorem failed_read_position:
  "(read_array_header d pos = Failed p \<longrightarrow> p = (if pos < length d then pos + 1 else pos)) \<and>
   (read_uint d pos = Failed p \<longrightarrow> p = (if pos < length d then pos + 1 else pos)) \<and>
   (read_int d pos = Failed p \<longrightarrow> p = (if pos < length d then pos + 1 else pos)) \<and>
   (read_float64 d pos = Failed p \<longrightarrow> p = (if pos < length d then pos + 1 else pos)) \<and>
   (read_bin_size d pos = Failed p \<longrightarrow>
      read_bin d pos arr max_size = Failed p \<and>
      p = (if pos < length d then pos + 1 else pos)) \<and>
   (read_bin_size d pos = Done sz p1 \<and> length d < p1 + sz \<longrightarrow>
      read_bin d pos arr max_size = Failed p1 \<and> p1 \<le> length d \<and>
      (d ! pos = 0xc4 \<and> p1 = pos + 2 \<or> d ! pos = 0xc5 \<and> p1 = pos + 3 \<or>
       d ! pos = 0xc6 \<and> p1 = pos + 5)) \<and>
   (read_bin d pos arr max_size = Failed p \<longrightarrow>
      read_bin_size d pos = Failed p \<or>
      (\<exists>sz. read_bin_size d pos = Done sz p \<and> length d < p + sz))"
proof (intro conjI impI)
  assume "read_array_header d pos = Failed p"
  then show "p = (if pos < length d then pos + 1 else pos)"
    by (intro Failed_where read_array_header_Failed)
next
  assume "read_uint d pos = Failed p"
  then show "p = (if pos < length d then pos + 1 else pos)"
    by (intro Failed_where read_uint_Failed)
next
  assume "read_int d pos = Failed p"
  then show "p = (if pos < length d then pos + 1 else pos)"
    by (intro Failed_where read_int_Failed)
next
  assume "read_float64 d pos = Failed p"
  then show "p = (if pos < length d then pos + 1 else pos)"
    by (intro Failed_where read_float64_Failed)
next
  assume a: "read_bin_size d pos = Failed p"
  then show "read_bin d pos arr max_size = Failed p"
    by (rule read_bin_no_length)
  from a show "p = (if pos < length d then pos + 1 else pos)"
    by (rule read_bin_size_Failed)
next
  assume a: "read_bin_size d pos = Done sz p1 \<and> length d < p1 + sz"
  then show "read_bin d pos arr max_size = Failed p1"
    by (intro read_bin_cut_payload [of d pos sz]) simp_all
  from a read_bin_size_Done [of d pos sz p1]
  show "p1 \<le> length d"
    and "d ! pos = 0xc4 \<and> p1 = pos + 2 \<or> d ! pos = 0xc5 \<and> p1 = pos + 3 \<or>
         d ! pos = 0xc6 \<and> p1 = pos + 5"
    by simp_all
next
  assume "read_bin d pos arr max_size = Failed p"
  then show "read_bin_size d pos = Failed p \<or>
      (\<exists>sz. read_bin_size d pos = Done sz p \<and> length d < p + sz)"
    by (rule read_bin_Failed_why)
qed

text \<open>
  The amended statement at truncated inputs: one for each of the first four primitives,
  for \<^verbatim>\<open>read_bin\<close> a \<^verbatim>\<open>bin16\<close> string whose length field is cut short, and a \<^verbatim>\<open>bin8\<close>,
  a \<^verbatim>\<open>bin16\<close> and a \<^verbatim>\<open>bin32\<close> string that declare five bytes and hold one.
\<close>

theorem failed_read_position_witness:
  "read_array_header [0xdc, 0x00] 0 = Failed 1 \<and>
   read_uint [0xcc] 0 = Failed 1 \<and>
   read_int [0xd1, 0x00] 0 = Failed 1 \<and>
   read_float64 [0xcb, 0, 0, 0] 0 = Failed 1 \<and>
   read_bin_size [0xc5, 0] 0 = Failed 1 \<and>
   read_bin [0xc5, 0] 0 [0, 0] 2 = Failed 1 \<and>
   read_bin_size [0xc4, 5, 1] 0 = Done 5 2 \<and>
   read_bin [0xc4, 5, 1] 0 [0, 0] 2 = Failed 2 \<and>
   read_bin_size [0xc5, 0, 5, 1] 0 = Done 5 3 \<and>
   read_bin [0xc5, 0, 5, 1] 0 [0, 0] 2 = Failed 3 \<and>
   read_bin_size [0xc6, 0, 0, 0, 5, 1] 0 = Done 5 5 \<and>
   read_bin [0xc6, 0, 0, 0, 5, 1] 0 [0, 0] 2 = Failed 5"
proof -
  have sizes: "read_bin_size [0xc5, 0] 0 = Failed 1"
    "read_bin_size [0xc4, 5, 1] 0 = Done 5 2"
    "read_bin_size [0xc5, 0, 5, 1] 0 = Done 5 3"
    "read_bin_size [0xc6, 0, 0, 0, 5, 1] 0 = Done 5 5"
    by (simp_all add: read_bin_size_def idx_def be16_int_def be32_def)
  have prims: "read_array_header [0xdc, 0x00] 0 = Failed 1" "read_uint [0xcc] 0 = Failed 1"
    "read_int [0xd1, 0x00] 0 = Failed 1" "read_float64 [0xcb, 0, 0, 0] 0 = Failed 1"
    by (simp_all add: read_array_header_def read_uint_def read_int_def read_float64_def
        idx_def and_then_def)
  have "read_bin [0xc5, 0] 0 [0, 0] 2 = Failed 1"
    using failed_read_position [of "[0xc5, 0]" 0 1 "[0, 0]" 2 0 0] sizes(1) by simp
  moreover have "read_bin [0xc4, 5, 1] 0 [0, 0] 2 = Failed 2"
    using failed_read_position [of "[0xc4, 5, 1]" 0 0 "[0, 0]" 2 5 2] sizes(2) by simp
  moreover have "read_bin [0xc5, 0, 5, 1] 0 [0, 0] 2 = Failed 3"
    using failed_read_position [of "[0xc5, 0, 5, 1]" 0 0 "[0, 0]" 2 5 3] sizes(3) by simp
  moreover have "read_bin [0xc6, 0, 0, 0, 5, 1] 0 [0, 0] 2 = Failed 5"
    using failed_read_position [of "[0xc6, 0, 0, 0, 5, 1]" 0 0 "[0, 0]" 2 5 5] sizes(4) by simp
  ultimately show ?thesis
    using sizes prims by (intro conjI)
qed

subsection \<open>C9: the read position stays inside the buffer\<close>

text \<open>
  The part of C9 that is about the read position holds.  Started at a position inside the
  buffer (\<^verbatim>\<open>pos_\<close> is private and starts at 0), every operation of the parser returns,
  whether with \<^verbatim>\<open>true\<close> or with \<^verbatim>\<open>false\<close>, with a read position that is not before the
  one it started from and not past \<^verbatim>\<open>data_.size()\<close>, and it reads no byte of \<^verbatim>\<open>data_\<close>
  out of bounds (\<open>advances\<close> excludes every fault).  The one operation that may not
  return is \<^verbatim>\<open>parse_batch\<close>, which the exception of \<^verbatim>\<open>events.reserve\<close> can leave.  For
  the operations that fill a sample array the buffer is shorter than \<open>2 ^ 31\<close> bytes and
  the array has room for \<^verbatim>\<open>max_size\<close> entries, as in every call the program makes: a
  block buffer holds at most 100000000 bytes, and the arrays have
  \<^verbatim>\<open>MAX_WAVEFORM_SAMPLES\<close> entries.
\<close>

lemma position_stays_within_buffer:
  assumes "pos \<le> length d"
  shows "advances d pos (read_array_header d pos) \<and>
         advances d pos (read_uint d pos) \<and>
         advances d pos (read_int d pos) \<and>
         advances d pos (read_float64 d pos) \<and>
         advances d pos (parse_batch_header d pos) \<and>
         advances d pos (parse_event_minimal d pos) \<and>
         (advances d pos (parse_batch granted d pos) \<or>
          parse_batch granted d pos = Fault AllocFailure) \<and>
         (length d < 2 ^ 31 \<and> 0 \<le> max_size \<and> nat max_size \<le> length arr8 \<and>
          nat max_size \<le> length arr16 \<longrightarrow>
            advances d pos (read_bin d pos arr8 max_size) \<and>
            advances d pos (read_u8_array d pos arr8 max_size) \<and>
            advances d pos (read_i16_array d pos arr16 max_size)) \<and>
         (length d < 2 ^ 31 \<and>
          nat MAX_WAVEFORM_SAMPLES \<le> length (b_analog1 br) \<and>
          nat MAX_WAVEFORM_SAMPLES \<le> length (b_analog2 br) \<and>
          nat MAX_WAVEFORM_SAMPLES \<le> length (b_digital1 br) \<and>
          nat MAX_WAVEFORM_SAMPLES \<le> length (b_digital2 br) \<and>
          nat MAX_WAVEFORM_SAMPLES \<le> length (b_digital3 br) \<and>
          nat MAX_WAVEFORM_SAMPLES \<le> length (b_digital4 br) \<longrightarrow>
            advances d pos (parse_waveform d pos br) \<and>
            advances d pos (parse_event d pos br))"
proof (intro conjI impI)
  show "advances d pos (read_array_header d pos)"
    using assms by (rule advances_read_array_header)
  show "advances d pos (read_uint d pos)"
    using assms by (rule advances_read_uint)
  show "advances d pos (read_int d pos)"
    using assms by (rule advances_read_int)
  show "advances d pos (read_float64 d pos)"
    using assms by (rule advances_read_float64)
  show "advances d pos (parse_batch_header d pos)"
    using assms by (rule advances_parse_batch_header)
  show "advances d pos (parse_event_minimal d pos)"
    using assms by (rule advances_parse_event_minimal)
  show "advances d pos (parse_batch granted d pos) \<or>
        parse_batch granted d pos = Fault AllocFailure"
    using assms by (rule advances_parse_batch)
next
  assume a: "length d < 2 ^ 31 \<and> 0 \<le> max_size \<and> nat max_size \<le> length arr8 \<and>
          nat max_size \<le> length arr16"
  show "advances d pos (read_bin d pos arr8 max_size)"
    using assms a by (intro advances_read_bin) simp_all
  show "advances d pos (read_u8_array d pos arr8 max_size)"
    using assms a by (intro advances_read_u8_array) simp_all
  show "advances d pos (read_i16_array d pos arr16 max_size)"
    using assms a by (intro advances_read_i16_array) simp_all
next
  assume a: "length d < 2 ^ 31 \<and>
          nat MAX_WAVEFORM_SAMPLES \<le> length (b_analog1 br) \<and>
          nat MAX_WAVEFORM_SAMPLES \<le> length (b_analog2 br) \<and>
          nat MAX_WAVEFORM_SAMPLES \<le> length (b_digital1 br) \<and>
          nat MAX_WAVEFORM_SAMPLES \<le> length (b_digital2 br) \<and>
          nat MAX_WAVEFORM_SAMPLES \<le> length (b_digital3 br) \<and>
          nat MAX_WAVEFORM_SAMPLES \<le> length (b_digital4 br)"
  show "advances d pos (parse_waveform d pos br)"
    using assms a by (intro advances_parse_waveform) simp_all
  show "advances d pos (parse_event d pos br)"
    using assms a by (intro advances_parse_event) simp_all
qed

lemma br_zero_capacity:
  "nat MAX_WAVEFORM_SAMPLES \<le> length (b_analog1 br_zero)"
  "nat MAX_WAVEFORM_SAMPLES \<le> length (b_analog2 br_zero)"
  "nat MAX_WAVEFORM_SAMPLES \<le> length (b_digital1 br_zero)"
  "nat MAX_WAVEFORM_SAMPLES \<le> length (b_digital2 br_zero)"
  "nat MAX_WAVEFORM_SAMPLES \<le> length (b_digital3 br_zero)"
  "nat MAX_WAVEFORM_SAMPLES \<le> length (b_digital4 br_zero)"
  by (simp_all add: br_zero_def MAX_WAVEFORM_SAMPLES_def)

text \<open>
  The subscript of \<^verbatim>\<open>&data_[pos_]\<close> in \<^verbatim>\<open>read_bin\<close> is the one subscript of the parser
  that no bounds check guards by itself: the check before it is
  \<^verbatim>\<open>pos_ + size > data_.size()\<close>, which lets \<^verbatim>\<open>pos_ == data_.size()\<close> pass when
  \<^verbatim>\<open>size\<close> is 0.  Every successful \<^verbatim>\<open>read_bin\<close> evaluates it; it is never larger than
  \<^verbatim>\<open>data_.size()\<close>, and it is equal to it exactly when a byte string of declared length
  0 ends the buffer.
\<close>

lemma read_bin_reaches_memcpy:
  "read_bin d pos arr max_size = Done r p \<Longrightarrow> \<exists>i. memcpy_source d pos = Some i"
  by (auto simp: read_bin_def memcpy_source_def and_then_def Let_def
      split: outcome.splits if_splits)

lemma memcpy_source_bound:
  "memcpy_source d pos = Some i \<Longrightarrow>
     i \<le> length d \<and> (i = length d \<longleftrightarrow> read_bin_size d pos = Done 0 (length d))"
  by (auto simp: memcpy_source_def split: outcome.splits if_splits)

text \<open>
  C9 does not hold in its last part (no operation indexes the buffer out of bounds).  In
  \<open>cut_block\<close>, a block that ends behind the empty \<^verbatim>\<open>bin8\<close> string of the first digital
  probe of its event, \<^verbatim>\<open>parse_event\<close> reads the probe with \<^verbatim>\<open>read_u8_array\<close> at
  position 23; \<^verbatim>\<open>read_bin\<close> consumes the tag and the length 0, stands at position 25,
  the size of the buffer, and evaluates \<^verbatim>\<open>&data_[25]\<close>, one past its last element.  No
  byte is copied, the call returns \<^verbatim>\<open>true\<close> with no samples, and the event fails at the
  next probe.  The same at the two-byte buffer \<open>c4 00\<close>.
\<close>

theorem empty_bin_subscript_past_end:
  "length cut_block = 25 \<and>
   parse_batch_header cut_block 0 = Done (1, 1) 5 \<and>
   parse_event cut_block 5 br_zero = Failed 25 \<and>
   read_u8_array cut_block 23 (b_digital1 br_zero) MAX_WAVEFORM_SAMPLES =
     Done (0, b_digital1 br_zero) 25 \<and>
   memcpy_source cut_block 23 = Some 25 \<and>
   length [0xc4, 0 :: byte] = 2 \<and>
   read_bin [0xc4, 0] 0 [0, 0] 2 = Done (0, [0, 0]) 2 \<and>
   memcpy_source [0xc4, 0] 0 = Some 2"
  by (simp add: cut_block_def event7_example_def parse_batch_header_def parse_event_def
      parse_waveform_def read_array_header_def read_uint_def read_float64_def
      read_i16_array_def read_u8_array_def read_bin_def read_bin_size_def memcpy_source_def
      memcpy_from_def idx_def and_then_def Let_def i16_loop.simps u8_loop.simps to_int_def
      MAX_WAVEFORM_SAMPLES_def be64_def br_zero_def)

subsection \<open>C10: no store outside the destination array\<close>

text \<open>
  C10: a call of \<^verbatim>\<open>read_i16_array\<close>, \<^verbatim>\<open>read_u8_array\<close> or \<^verbatim>\<open>read_bin\<close> with a
  destination array of exactly \<^verbatim>\<open>max_size\<close> entries never stores at an index of
  \<^verbatim>\<open>max_size\<close> or more, whatever element count the stream declares: in the model such
  a store is the outcome \<open>Fault DestOverflow\<close>.  The buffer is shorter than \<open>2 ^ 31\<close>
  bytes, as every block buffer of the program is (at most 100000000 bytes); this keeps
  \<^verbatim>\<open>static_cast<int>\<close> of the loop index and of the declared size from wrapping.
\<close>

theorem stores_stay_within_capacity:
  assumes "length d < 2 ^ 31" and "0 \<le> max_size"
  shows "(length arr16 = nat max_size \<longrightarrow>
            read_i16_array d pos arr16 max_size \<noteq> Fault DestOverflow) \<and>
         (length arr8 = nat max_size \<longrightarrow>
            read_u8_array d pos arr8 max_size \<noteq> Fault DestOverflow \<and>
            read_bin d pos arr8 max_size \<noteq> Fault DestOverflow)"
proof (cases "pos \<le> length d")
  case True
  have nf: "advances d pos r \<Longrightarrow> r \<noteq> Fault DestOverflow" for r :: "'a outcome"
    by (auto simp: advances_def)
  show ?thesis
    using True assms
    by (intro conjI impI nf advances_read_i16_array advances_read_u8_array advances_read_bin)
       simp_all
next
  case False
  then have "read_array_header d pos = Failed pos"
    by (simp add: read_array_header_def)
  with False show ?thesis
    by (simp add: read_i16_array_def read_u8_array_def read_bin_def read_bin_size_def and_then_def)
qed

text \<open>
  The statement at a buffer that declares three elements for a destination of two
  entries, as an array (position 0) and as a \<^verbatim>\<open>bin8\<close> string (position 4).
\<close>

theorem stores_stay_within_capacity_witness:
  "length [0x93 :: byte, 1, 2, 3, 0xc4, 3, 7, 8, 9] < 2 ^ 31 \<and> (0 :: int) \<le> 2 \<and>
   length [0 :: 16 word, 0] = nat 2 \<and> length [0 :: byte, 0] = nat 2 \<and>
   read_i16_array [0x93, 1, 2, 3, 0xc4, 3, 7, 8, 9] 0 [0, 0] 2 \<noteq> Fault DestOverflow \<and>
   read_u8_array [0x93, 1, 2, 3, 0xc4, 3, 7, 8, 9] 0 [0, 0] 2 \<noteq> Fault DestOverflow \<and>
   read_bin [0x93, 1, 2, 3, 0xc4, 3, 7, 8, 9] 4 [0, 0] 2 \<noteq> Fault DestOverflow \<and>
   read_bin [0x93, 1, 2, 3, 0xc4, 3, 7, 8, 9] 4 [0, 0] 2 = Done (2, [7, 8]) 9"
  using stores_stay_within_capacity [of "[0x93, 1, 2, 3, 0xc4, 3, 7, 8, 9]" 2 "[0, 0]" 0 "[0, 0]"]
    stores_stay_within_capacity [of "[0x93, 1, 2, 3, 0xc4, 3, 7, 8, 9]" 2 "[0, 0]" 4 "[0, 0]"]
  by (simp add: read_bin_def read_bin_size_def idx_def and_then_def to_int_def memcpy_from_def)

subsection \<open>C4: the integer tags decode to the encoded value\<close>

lemma be16_int_split: "be16_int (ucast (drop_bit 8 v)) (ucast v) = ucast (v :: 16 word)"
  unfolding be16_int_def
  by (rule bit_word_eqI) (auto simp: bit_simps dest: bit_imp_le_length)

lemma be32_split:
  "be32 (ucast (drop_bit 24 v)) (ucast (drop_bit 16 v)) (ucast (drop_bit 8 v)) (ucast v) = v"
  unfolding be32_def
proof (rule bit_word_eqI)
  fix n :: nat
  assume "n < LENGTH(32)"
  then consider "n < 8" | "8 \<le> n" "n < 16" | "16 \<le> n" "n < 24" | "24 \<le> n" "n < 32"
    by (simp, linarith)
  then show "bit (push_bit 24 (ucast (ucast (drop_bit 24 v) :: byte)) OR
         push_bit 16 (ucast (ucast (drop_bit 16 v) :: byte)) OR
         push_bit 8 (ucast (ucast (drop_bit 8 v) :: byte)) OR ucast (ucast v :: byte) :: 32 word) n = bit v n"
    by cases (simp_all add: bit_simps less_diff_conv2)
qed

lemma be64_split:
  "be64 (ucast (drop_bit 56 v)) (ucast (drop_bit 48 v)) (ucast (drop_bit 40 v))
        (ucast (drop_bit 32 v)) (ucast (drop_bit 24 v)) (ucast (drop_bit 16 v))
        (ucast (drop_bit 8 v)) (ucast v) = v"
proof (rule bit_word_eqI)
  fix n :: nat
  assume "n < LENGTH(64)"
  then consider "n < 8" | "8 \<le> n" "n < 16" | "16 \<le> n" "n < 24" | "24 \<le> n" "n < 32"
    | "32 \<le> n" "n < 40" | "40 \<le> n" "n < 48" | "48 \<le> n" "n < 56" | "56 \<le> n" "n < 64"
    by (simp, linarith)
  then show "bit (be64 (ucast (drop_bit 56 v)) (ucast (drop_bit 48 v)) (ucast (drop_bit 40 v))
        (ucast (drop_bit 32 v)) (ucast (drop_bit 24 v)) (ucast (drop_bit 16 v))
        (ucast (drop_bit 8 v)) (ucast v)) n = bit v n"
    unfolding be64_def
    by cases (simp_all add: bit_simps less_diff_conv2)
qed

lemma scast_ucast_16_32_64: "(scast (ucast (v :: 16 word) :: 32 word) :: 64 word) = ucast v"
  by (rule bit_word_eqI) (auto simp: bit_simps min_def dest: bit_imp_le_length)

lemma ucast_ucast_16_32_16: "(ucast (ucast (v :: 16 word) :: 32 word) :: 16 word) = v"
  by (rule bit_word_eqI) (auto simp: bit_simps)



lemma read_uint_fixint_7f: "read_uint (pre @ [0x7f] @ rest) (length pre) = Done 0x7f (length pre + 1)"
  by (simp add: read_uint_def idx_def nth_append)

lemma read_int_fixint_7f: "read_int (pre @ [0x7f] @ rest) (length pre) = Done 0x7f (length pre + 1)"
  by (simp add: read_int_def idx_def nth_append)

lemma read_int_fixint_ff: "read_int (pre @ [0xff] @ rest) (length pre) = Done (- 1) (length pre + 1)"
  by (simp add: read_int_def idx_def nth_append)

lemma read_uint_uint8:
  "read_uint (pre @ enc_uint8 v @ rest) (length pre) = Done (ucast v) (length pre + 2)"
  by (simp add: read_uint_def idx_def nth_append enc_uint8_def)

lemma read_uint_uint16:
  "read_uint (pre @ enc_uint16 v @ rest) (length pre) = Done (ucast v) (length pre + 3)"
  by (simp add: read_uint_def idx_def nth_append enc_uint16_def be16_int_split
      scast_ucast_16_32_64)

lemma read_uint_uint32:
  "read_uint (pre @ enc_uint32 v @ rest) (length pre) = Done (ucast v) (length pre + 5)"
  by (simp add: read_uint_def idx_def nth_append enc_uint32_def be32_split)

lemma read_uint_uint64:
  "read_uint (pre @ enc_uint64 v @ rest) (length pre) = Done v (length pre + 9)"
  by (simp add: read_uint_def idx_def nth_append enc_uint64_def be64_split)

lemma read_int_int8:
  "read_int (pre @ enc_int8 v @ rest) (length pre) = Done (scast v) (length pre + 2)"
  by (simp add: read_int_def idx_def nth_append enc_int8_def)

lemma read_int_int16:
  "read_int (pre @ enc_int16 v @ rest) (length pre) = Done (scast v) (length pre + 3)"
  by (simp add: read_int_def idx_def nth_append enc_int16_def be16_int_split
      ucast_ucast_16_32_16)

lemma read_int_int32:
  "read_int (pre @ enc_int32 v @ rest) (length pre) = Done (scast v) (length pre + 5)"
  by (simp add: read_int_def idx_def nth_append enc_int32_def be32_split)

lemma widen_keeps_unat:
  "unat (ucast (a :: 8 word) :: 64 word) = unat a"
  "unat (ucast (b :: 16 word) :: 64 word) = unat b"
  "unat (ucast (c :: 32 word) :: 64 word) = unat c"
  by (simp_all add: unsigned_ucast_eq take_bit_nat_eq_self_iff order_less_le_trans [OF unsigned_less])


lemma widen_keeps_sint:
  "sint (scast (a :: 8 word) :: 64 word) = sint a"
  "sint (scast (b :: 16 word) :: 64 word) = sint b"
  "sint (scast (c :: 32 word) :: 64 word) = sint c"
  by (simp_all add: sint_up_scast is_up)
text \<open>
  C4: at each tag boundary, and for every value under each explicit-width tag, decoding
  the encoding gives the value back and leaves the read position behind the encoding,
  wherever the encoding stands in the buffer.  \<^verbatim>\<open>read_uint\<close> returns the value widened
  to 64 bits without sign (\<open>ucast\<close>), \<^verbatim>\<open>read_int\<close> the value sign-extended to 64 bits
  (\<open>scast\<close>); the last six conjuncts say that widening keeps the unsigned, respectively
  the signed, value.
\<close>

theorem tag_boundaries_round_trip:
  "read_uint (pre @ [0x7f] @ rest) (length pre) = Done 0x7f (length pre + 1) \<and>
   read_int (pre @ [0x7f] @ rest) (length pre) = Done 0x7f (length pre + 1) \<and>
   read_uint (pre @ enc_uint8 0x80 @ rest) (length pre) = Done 0x80 (length pre + 2) \<and>
   read_int (pre @ [0xff] @ rest) (length pre) = Done (- 1) (length pre + 1) \<and>
   read_uint (pre @ enc_uint8 v8 @ rest) (length pre) = Done (ucast v8) (length pre + 2) \<and>
   read_uint (pre @ enc_uint16 v16 @ rest) (length pre) = Done (ucast v16) (length pre + 3) \<and>
   read_uint (pre @ enc_uint32 v32 @ rest) (length pre) = Done (ucast v32) (length pre + 5) \<and>
   read_uint (pre @ enc_uint64 v64 @ rest) (length pre) = Done v64 (length pre + 9) \<and>
   read_int (pre @ enc_int8 v8 @ rest) (length pre) = Done (scast v8) (length pre + 2) \<and>
   read_int (pre @ enc_int16 v16 @ rest) (length pre) = Done (scast v16) (length pre + 3) \<and>
   read_int (pre @ enc_int32 v32 @ rest) (length pre) = Done (scast v32) (length pre + 5) \<and>
   unat (ucast v8 :: 64 word) = unat v8 \<and>
   unat (ucast v16 :: 64 word) = unat v16 \<and>
   unat (ucast v32 :: 64 word) = unat v32 \<and>
   sint (scast v8 :: 64 word) = sint v8 \<and>
   sint (scast v16 :: 64 word) = sint v16 \<and>
   sint (scast v32 :: 64 word) = sint v32"
proof -
  have "read_uint (pre @ enc_uint8 0x80 @ rest) (length pre) = Done 0x80 (length pre + 2)"
    using read_uint_uint8 [of pre "0x80" rest] by simp
  then show ?thesis
    by (simp only: read_uint_fixint_7f read_int_fixint_7f read_int_fixint_ff read_uint_uint8
        read_uint_uint16 read_uint_uint32 read_uint_uint64 read_int_int8 read_int_int16
        read_int_int32 widen_keeps_unat widen_keeps_sint simp_thms)
qed

subsection \<open>C3: the arity of an event record\<close>

lemma and_then_eq_Done:
  "and_then r k = Done v p \<longleftrightarrow> (\<exists>v1 p1. r = Done v1 p1 \<and> k v1 p1 = Done v p)"
  by (cases r) (simp_all add: and_then_def)

lemma and_then_Done [simp]: "and_then (Done v p) k = k v p"
  by (simp add: and_then_def)

lemma and_then_Failed [simp]: "and_then (Failed p) k = Failed p"
  by (simp add: and_then_def)

lemma parse_waveform_keeps_flag:
  "parse_waveform d pos br = Done br' p' \<Longrightarrow> b_has_waveform br' = b_has_waveform br"
  unfolding parse_waveform_def Let_def split_beta
  by (auto simp: and_then_eq_Done split: if_splits)

lemma parse_event_Done:
  assumes "parse_event d pos br = Done br' p'"
  shows "\<exists>sz p1. read_array_header d pos = Done sz p1 \<and> (sz = 6 \<or> sz = 7) \<and>
           b_has_waveform br' = (sz = 7)"
proof -
  from assms obtain sz p1 where h: "read_array_header d pos = Done sz p1"
    unfolding parse_event_def by (auto simp: and_then_eq_Done)
  from assms h have sz: "sz = 6 \<or> sz = 7"
    unfolding parse_event_def by (auto split: if_splits)
  from assms h sz have "b_has_waveform br' = (sz = 7)"
    unfolding parse_event_def Let_def
    by (auto simp: and_then_eq_Done dest!: parse_waveform_keeps_flag split: if_splits)
  with h sz show ?thesis by blast
qed

lemma parse_event_other_size:
  "read_array_header d pos = Done sz p1 \<Longrightarrow> sz \<noteq> 6 \<Longrightarrow> sz \<noteq> 7 \<Longrightarrow>
   parse_event d pos br = Failed p1"
  by (simp add: parse_event_def)

lemma parse_event_minimal_other_size:
  "read_array_header d pos = Done sz p1 \<Longrightarrow> sz \<noteq> 6 \<Longrightarrow> parse_event_minimal d pos = Failed p1"
  by (simp add: parse_event_minimal_def)

lemma parse_event_minimal_Done:
  assumes "parse_event_minimal d pos = Done ev p'"
  shows "(\<exists>p1. read_array_header d pos = Done 6 p1) \<and>
         parse_event d pos br = Done (no_waveform br ev) p'"
proof -
  from assms obtain sz p1 where h: "read_array_header d pos = Done sz p1"
    unfolding parse_event_minimal_def by (auto simp: and_then_eq_Done)
  from assms h have sz: "sz = 6"
    unfolding parse_event_minimal_def by (auto split: if_splits)
  from assms h sz have "parse_event d pos br = Done (no_waveform br ev) p'"
    unfolding parse_event_minimal_def parse_event_def Let_def no_waveform_def
    by (auto simp: and_then_eq_Done)
  with h sz show ?thesis by blast
qed

lemma ex7_min: "parse_event_minimal event7_example 0 = Failed 1"
  by (simp add: event7_example_def parse_event_minimal_def read_array_header_def idx_def)

lemma ex7_hdr: "read_array_header event7_example 0 = Done 7 1"
  by (simp add: event7_example_def read_array_header_def idx_def)

lemma ex7_full: "parse_event event7_example 0 br_zero =
   Done (br_zero\<lparr>b_module := 1, b_channel := 2, b_energy := 100, b_energy_short := 50,
           b_timestamp_ns := 0x40934A0000000000, b_has_waveform := True\<rparr>) 24"
  by (simp add: event7_example_def parse_event_def parse_waveform_def read_array_header_def
      read_uint_def read_float64_def read_i16_array_def read_u8_array_def idx_def Let_def
      i16_loop.simps u8_loop.simps to_int_def MAX_WAVEFORM_SAMPLES_def be64_def br_zero_def)

lemma ex5_hdr: "read_array_header event5_example 0 = Done 5 1"
  by (simp add: event5_example_def read_array_header_def idx_def)

text \<open>
  C3, as stated (both usage shapes accept both counts), does not hold: the decode
  without waveform of \<^verbatim>\<open>read_delila.C\<close> tests \<^verbatim>\<open>ev_size != 6\<close> and so rejects the
  seven-element record that the decode with waveform of \<^verbatim>\<open>convert_to_tree.C\<close> accepts.
\<close>

theorem event_arity_counterexample:
  "read_array_header event7_example 0 = Done 7 1 \<and>
   parse_event event7_example 0 br_zero =
     Done (br_zero\<lparr>b_module := 1, b_channel := 2, b_energy := 100, b_energy_short := 50,
             b_timestamp_ns := 0x40934A0000000000, b_has_waveform := True\<rparr>) 24 \<and>
   parse_event_minimal event7_example 0 = Failed 1"
  by (simp only: ex7_hdr ex7_full ex7_min simp_thms)

lemma parse_event_six:
  assumes "read_array_header d pos = Done 6 p0"
    and "read_uint d p0 = Done m p1" and "read_uint d p1 = Done c p2"
    and "read_uint d p2 = Done e p3" and "read_uint d p3 = Done es p4"
    and "read_float64 d p4 = Done ts p5" and "read_uint d p5 = Done fl p6"
    and "ev = \<lparr>module = ucast m, channel = ucast c, energy = ucast e, energy_short = ucast es,
                timestamp_ns = ts, flags = fl\<rparr>"
  shows "parse_event d pos br = Done (no_waveform br ev) p6"
    and "parse_event_minimal d pos = Done ev p6"
  using assms by (simp_all add: parse_event_def parse_event_minimal_def no_waveform_def)

lemma parse_event_seven:
  assumes "read_array_header d pos = Done 7 p0"
    and "read_uint d p0 = Done m p1" and "read_uint d p1 = Done c p2"
    and "read_uint d p2 = Done e p3" and "read_uint d p3 = Done es p4"
    and "read_float64 d p4 = Done ts p5" and "read_uint d p5 = Done fl p6"
    and "ev = \<lparr>module = ucast m, channel = ucast c, energy = ucast e, energy_short = ucast es,
                timestamp_ns = ts, flags = fl\<rparr>"
  shows "parse_event d pos br =
           parse_waveform d p6 ((no_waveform br ev)\<lparr>b_has_waveform := True\<rparr>)"
  using assms by (cases br) (simp add: parse_event_def no_waveform_def)

text \<open>
  C3, amended.  The decode with waveform (\<^verbatim>\<open>parse_event\<close> of \<^verbatim>\<open>convert_to_tree.C\<close>)
  accepts the declared lengths 6 and 7 and no other: it fails on every other length; a
  record of length 6 whose six fields decode is accepted with those fields and no
  waveform; a record of length 7 whose six fields decode is handed to
  \<^verbatim>\<open>parse_waveform\<close> with \<^verbatim>\<open>has_waveform\<close> set, and the result of the event is the
  result of the waveform, which keeps the flag; whenever it succeeds the length was 6 or
  7 and \<^verbatim>\<open>has_waveform\<close> is set exactly when it was 7.  The decode without waveform
  (\<^verbatim>\<open>parse_event\<close> of \<^verbatim>\<open>read_delila.C\<close>) accepts a record of length 6 whose six fields
  decode and fails on every other length, the length 7 included; on every record it
  accepts, the decode with waveform succeeds too, ends at the same position and has the
  same six fields and no waveform.
\<close>

theorem event_arity:
  "(read_array_header d pos = Done sz p0 \<and> sz \<noteq> 6 \<and> sz \<noteq> 7 \<longrightarrow>
      parse_event d pos br = Failed p0) \<and>
   (read_array_header d pos = Done sz p0 \<and> sz \<noteq> 6 \<longrightarrow>
      parse_event_minimal d pos = Failed p0) \<and>
   (read_uint d p0 = Done m p1 \<and> read_uint d p1 = Done c p2 \<and>
    read_uint d p2 = Done e p3 \<and> read_uint d p3 = Done es p4 \<and>
    read_float64 d p4 = Done ts p5 \<and> read_uint d p5 = Done fl p6 \<and>
    fs = \<lparr>module = ucast m, channel = ucast c, energy = ucast e, energy_short = ucast es,
               timestamp_ns = ts, flags = fl\<rparr> \<longrightarrow>
      (read_array_header d pos = Done 6 p0 \<longrightarrow>
         parse_event d pos br = Done (no_waveform br fs) p6 \<and>
         parse_event_minimal d pos = Done fs p6) \<and>
      (read_array_header d pos = Done 7 p0 \<longrightarrow>
         parse_event d pos br =
           parse_waveform d p6 ((no_waveform br fs)\<lparr>b_has_waveform := True\<rparr>) \<and>
         (parse_waveform d p6 ((no_waveform br fs)\<lparr>b_has_waveform := True\<rparr>) = Done br' p'
            \<longrightarrow> parse_event d pos br = Done br' p' \<and> b_has_waveform br'))) \<and>
   (parse_event d pos br = Done br' p' \<longrightarrow>
      (\<exists>sz p1. read_array_header d pos = Done sz p1 \<and> (sz = 6 \<or> sz = 7) \<and>
         b_has_waveform br' = (sz = 7))) \<and>
   (parse_event_minimal d pos = Done ev p' \<longrightarrow>
      (\<exists>p1. read_array_header d pos = Done 6 p1) \<and>
      parse_event d pos br = Done (no_waveform br ev) p')"
proof (intro conjI impI)
  assume "read_array_header d pos = Done sz p0 \<and> sz \<noteq> 6 \<and> sz \<noteq> 7"
  then show "parse_event d pos br = Failed p0"
    by (intro parse_event_other_size [of d pos sz]) simp_all
next
  assume "read_array_header d pos = Done sz p0 \<and> sz \<noteq> 6"
  then show "parse_event_minimal d pos = Failed p0"
    by (intro parse_event_minimal_other_size [of d pos sz]) simp_all
next
  assume f: "read_uint d p0 = Done m p1 \<and> read_uint d p1 = Done c p2 \<and>
    read_uint d p2 = Done e p3 \<and> read_uint d p3 = Done es p4 \<and>
    read_float64 d p4 = Done ts p5 \<and> read_uint d p5 = Done fl p6 \<and>
    fs = \<lparr>module = ucast m, channel = ucast c, energy = ucast e, energy_short = ucast es,
               timestamp_ns = ts, flags = fl\<rparr>"
  {
    assume h: "read_array_header d pos = Done 6 p0"
    from f show "parse_event d pos br = Done (no_waveform br fs) p6"
      by (intro parse_event_six(1) [OF h, of m p1 c p2 e p3 es p4 ts p5 fl]) simp_all
    from f show "parse_event_minimal d pos = Done fs p6"
      by (intro parse_event_six(2) [OF h, of m p1 c p2 e p3 es p4 ts p5 fl]) simp_all
  }
  {
    assume h: "read_array_header d pos = Done 7 p0"
    from f show w: "parse_event d pos br =
           parse_waveform d p6 ((no_waveform br fs)\<lparr>b_has_waveform := True\<rparr>)"
      by (intro parse_event_seven [OF h, of m p1 c p2 e p3 es p4 ts p5 fl]) simp_all
    assume d: "parse_waveform d p6 ((no_waveform br fs)\<lparr>b_has_waveform := True\<rparr>) =
        Done br' p'"
    with w show "parse_event d pos br = Done br' p'"
      by simp
    from parse_waveform_keeps_flag [OF d] show "b_has_waveform br'"
      by simp
  }
next
  assume "parse_event d pos br = Done br' p'"
  then show "\<exists>sz p1. read_array_header d pos = Done sz p1 \<and> (sz = 6 \<or> sz = 7) \<and>
         b_has_waveform br' = (sz = 7)"
    by (rule parse_event_Done)
next
  assume a: "parse_event_minimal d pos = Done ev p'"
  from parse_event_minimal_Done [OF a, of br]
  show "\<exists>p1. read_array_header d pos = Done 6 p1"
    and "parse_event d pos br = Done (no_waveform br ev) p'"
    by simp_all
qed

text \<open>
  The amended statement at the three example records, through their six fields: the
  six-element record is accepted by both decoders; the seven-element record is accepted by
  the decode with waveform, with \<^verbatim>\<open>has_waveform\<close> set and the waveform of six empty
  probes decoded, and rejected by the decode without waveform; the five-element record is
  rejected by the decode with waveform.
\<close>

lemma example_fields:
  "read_uint event6_example 1 = Done 1 2" "read_uint event6_example 2 = Done 2 3"
  "read_uint event6_example 3 = Done 100 4" "read_uint event6_example 4 = Done 50 5"
  "read_float64 event6_example 5 = Done 0x40934A0000000000 14"
  "read_uint event6_example 14 = Done 0 15"
  "read_uint event7_example 1 = Done 1 2" "read_uint event7_example 2 = Done 2 3"
  "read_uint event7_example 3 = Done 100 4" "read_uint event7_example 4 = Done 50 5"
  "read_float64 event7_example 5 = Done 0x40934A0000000000 14"
  "read_uint event7_example 14 = Done 0 15"
  by (simp_all add: event6_example_def event7_example_def read_uint_def read_float64_def
      idx_def be64_def)

lemma ex6_hdr: "read_array_header event6_example 0 = Done 6 1"
  by (simp add: event6_example_def read_array_header_def idx_def)

lemma ex7_waveform:
  "parse_waveform event7_example 15
     ((no_waveform br_zero \<lparr>module = 1, channel = 2, energy = 100, energy_short = 50,
         timestamp_ns = 0x40934A0000000000, flags = 0\<rparr>)\<lparr>b_has_waveform := True\<rparr>) =
   Done (br_zero\<lparr>b_module := 1, b_channel := 2, b_energy := 100, b_energy_short := 50,
           b_timestamp_ns := 0x40934A0000000000, b_has_waveform := True\<rparr>) 24"
  by (simp add: event7_example_def parse_waveform_def read_array_header_def
      read_uint_def read_i16_array_def read_u8_array_def idx_def Let_def no_waveform_def
      i16_loop.simps u8_loop.simps to_int_def MAX_WAVEFORM_SAMPLES_def br_zero_def)

theorem event_arity_witness:
  "read_array_header event6_example 0 = Done 6 1 \<and>
   parse_event_minimal event6_example 0 =
     Done \<lparr>module = 1, channel = 2, energy = 100, energy_short = 50,
            timestamp_ns = 0x40934A0000000000, flags = 0\<rparr> 15 \<and>
   parse_event event6_example 0 br_zero =
     Done (no_waveform br_zero \<lparr>module = 1, channel = 2, energy = 100, energy_short = 50,
            timestamp_ns = 0x40934A0000000000, flags = 0\<rparr>) 15 \<and>
   read_array_header event7_example 0 = Done 7 1 \<and>
   parse_event event7_example 0 br_zero =
     Done (br_zero\<lparr>b_module := 1, b_channel := 2, b_energy := 100, b_energy_short := 50,
             b_timestamp_ns := 0x40934A0000000000, b_has_waveform := True\<rparr>) 24 \<and>
   parse_event_minimal event7_example 0 = Failed 1 \<and>
   read_array_header event5_example 0 = Done 5 1 \<and>
   parse_event event5_example 0 br_zero = Failed 1"
proof -
  define ev :: event where "ev = \<lparr>module = 1, channel = 2, energy = 100, energy_short = 50,
            timestamp_ns = 0x40934A0000000000, flags = 0\<rparr>"
  define br7 where "br7 = br_zero\<lparr>b_module := 1, b_channel := 2, b_energy := 100,
     b_energy_short := 50, b_timestamp_ns := 0x40934A0000000000, b_has_waveform := True\<rparr>"
  have six: "parse_event event6_example 0 br_zero = Done (no_waveform br_zero ev) 15 \<and>
      parse_event_minimal event6_example 0 = Done ev 15"
    using event_arity [of event6_example 0 6 1 br_zero 1 2 2 3 100 4 50 5
        "0x40934A0000000000" 14 0 15 ev br7 24 ev]
    by (simp add: example_fields [unfolded One_nat_def] ex6_hdr ev_def)
  have seven: "parse_event event7_example 0 br_zero = Done br7 24 \<and>
      parse_event_minimal event7_example 0 = Failed 1"
    using event_arity [of event7_example 0 7 1 br_zero 1 2 2 3 100 4 50 5
        "0x40934A0000000000" 14 0 15 ev br7 24 ev] ex7_waveform
    by (simp add: example_fields [unfolded One_nat_def] ex7_hdr ev_def br7_def)
  have five: "parse_event event5_example 0 br_zero = Failed 1"
    using event_arity [of event5_example 0 5 1 br_zero] by (simp add: ex5_hdr)
  from six seven five show ?thesis
    unfolding ev_def br7_def by (simp add: ex6_hdr ex7_hdr ex5_hdr)
qed

subsection \<open>C2: the sample count that is returned\<close>

lemma read_bin_Done_size:
  assumes "read_bin d pos arr max_size = Done (n, arr') p'"
  shows "\<exists>sz p1. read_bin_size d pos = Done sz p1 \<and> p' = p1 + sz \<and> p' \<le> length d \<and>
           n = min (to_int sz) max_size"
  using assms unfolding read_bin_def Let_def memcpy_from_def
  by (auto simp: and_then_eq_Done split: if_splits)

lemma i16_loop_after:
  "i16_loop d sz max_size i pos arr = Done arr' p' \<Longrightarrow> i \<le> sz \<Longrightarrow>
   after_ints d (sz - i) pos = Some p'"
proof (induction d sz max_size i pos arr rule: i16_loop.induct)
  case (1 d sz max_size i pos arr)
  show ?case
  proof (cases "i < sz")
    case False
    with "1.prems" show ?thesis
      by (simp add: i16_loop.simps [of d sz max_size i pos arr])
  next
    case True
    then have suc: "sz - i = Suc (sz - (i + 1))" by simp
    from "1.prems"(1) True obtain v p where rd: "read_int d pos = Done v p"
      and rest: "(if to_int i < max_size then
            (if i < length arr then i16_loop d sz max_size (i + 1) p (arr[i := ucast v])
             else Fault DestOverflow)
          else i16_loop d sz max_size (i + 1) p arr) = Done arr' p'"
      by (auto simp: i16_loop.simps [of d sz max_size i pos arr] and_then_eq_Done)
    have "after_ints d (sz - (i + 1)) p = Some p'"
    proof (cases "to_int i < max_size")
      case st: True
      with rest have il: "i < length arr"
        and r: "i16_loop d sz max_size (i + 1) p (arr[i := ucast v]) = Done arr' p'"
        by (auto split: if_splits)
      from True show ?thesis
        by (intro "1.IH"(1) [OF True st il r]) simp
    next
      case st: False
      with rest have r: "i16_loop d sz max_size (i + 1) p arr = Done arr' p'"
        by simp
      from True show ?thesis
        by (intro "1.IH"(2) [OF True st r]) simp
    qed
    with rd show ?thesis
      by (simp add: suc)
  qed
qed

lemma after_ints_bounds:
  "after_ints d k pos = Some p' \<Longrightarrow> pos + k \<le> p' \<and> (0 < k \<longrightarrow> p' \<le> length d)"
proof (induction k arbitrary: pos)
  case 0
  then show ?case by simp
next
  case (Suc k)
  from Suc.prems obtain v p where rd: "read_int d pos = Done v p"
    and r: "after_ints d k p = Some p'"
    by (auto split: outcome.splits)
  from read_int_Done [OF rd] Suc.IH [OF r] show ?case
    by (cases k) (use r in auto)
qed

lemma u8_loop_after:
  "u8_loop d sz max_size i pos arr = Done arr' p' \<Longrightarrow> i \<le> sz \<Longrightarrow>
   after_uints d (sz - i) pos = Some p'"
proof (induction d sz max_size i pos arr rule: u8_loop.induct)
  case (1 d sz max_size i pos arr)
  show ?case
  proof (cases "i < sz")
    case False
    with "1.prems" show ?thesis
      by (simp add: u8_loop.simps [of d sz max_size i pos arr])
  next
    case True
    then have suc: "sz - i = Suc (sz - (i + 1))" by simp
    from "1.prems"(1) True obtain v p where rd: "read_uint d pos = Done v p"
      and rest: "(if to_int i < max_size then
            (if i < length arr then u8_loop d sz max_size (i + 1) p (arr[i := ucast v])
             else Fault DestOverflow)
          else u8_loop d sz max_size (i + 1) p arr) = Done arr' p'"
      by (auto simp: u8_loop.simps [of d sz max_size i pos arr] and_then_eq_Done)
    have "after_uints d (sz - (i + 1)) p = Some p'"
    proof (cases "to_int i < max_size")
      case st: True
      with rest have il: "i < length arr"
        and r: "u8_loop d sz max_size (i + 1) p (arr[i := ucast v]) = Done arr' p'"
        by (auto split: if_splits)
      from True show ?thesis
        by (intro "1.IH"(1) [OF True st il r]) simp
    next
      case st: False
      with rest have r: "u8_loop d sz max_size (i + 1) p arr = Done arr' p'"
        by simp
      from True show ?thesis
        by (intro "1.IH"(2) [OF True st r]) simp
    qed
    with rd show ?thesis
      by (simp add: suc)
  qed
qed

lemma after_uints_bounds:
  "after_uints d k pos = Some p' \<Longrightarrow> pos + k \<le> p' \<and> (0 < k \<longrightarrow> p' \<le> length d)"
proof (induction k arbitrary: pos)
  case 0
  then show ?case by simp
next
  case (Suc k)
  from Suc.prems obtain v p where rd: "read_uint d pos = Done v p"
    and r: "after_uints d k p = Some p'"
    by (auto split: outcome.splits)
  from read_uint_Done [OF rd] Suc.IH [OF r] show ?case
    by (cases k) (use r in auto)
qed


lemma read_i16_array_Done_size:
  assumes "read_i16_array d pos arr max_size = Done (n, arr') p'"
  shows "\<exists>sz p1. read_array_header d pos = Done sz p1 \<and> after_ints d sz p1 = Some p' \<and>
           n = min (to_int sz) max_size"
proof -
  from assms obtain sz p1 a where h: "read_array_header d pos = Done sz p1"
    and l: "i16_loop d sz max_size 0 p1 arr = Done a p'" and n: "n = min (to_int sz) max_size"
    unfolding read_i16_array_def Let_def by (auto simp: and_then_eq_Done)
  from i16_loop_after [OF l] have "after_ints d sz p1 = Some p'" by simp
  with h n show ?thesis by blast
qed

lemma read_u8_array_Done_size:
  assumes "read_u8_array d pos arr max_size = Done (n, arr') p'"
  shows "(\<exists>sz p1. read_bin_size d pos = Done sz p1 \<and> p' = p1 + sz \<and> p' \<le> length d \<and>
            n = min (to_int sz) max_size) \<or>
         (\<exists>sz p1. read_array_header d pos = Done sz p1 \<and> after_uints d sz p1 = Some p' \<and>
            n = min (to_int sz) max_size)"
proof (cases "pos < length d \<and> (d ! pos = 0xc4 \<or> d ! pos = 0xc5 \<or> d ! pos = 0xc6)")
  case True
  with assms have "read_bin d pos arr max_size = Done (n, arr') p'"
    by (auto simp: read_u8_array_def idx_def)
  from read_bin_Done_size [OF this] show ?thesis by blast
next
  case False
  with assms obtain sz p1 a where h: "read_array_header d pos = Done sz p1"
    and l: "u8_loop d sz max_size 0 p1 arr = Done a p'" and n: "n = min (to_int sz) max_size"
    unfolding read_u8_array_def Let_def idx_def
    by (auto simp: and_then_eq_Done split: if_splits)
  from u8_loop_after [OF l] have "after_uints d sz p1 = Some p'" by simp
  with h n show ?thesis by blast
qed

lemma declared_fits:
  "after_ints d sz p1 = Some p' \<Longrightarrow> length d < 2 ^ 31 \<Longrightarrow> to_int sz = int sz"
  "after_uints d sz p1 = Some p' \<Longrightarrow> length d < 2 ^ 31 \<Longrightarrow> to_int sz = int sz"
  "p1 + sz \<le> length d \<Longrightarrow> length d < 2 ^ 31 \<Longrightarrow> to_int sz = int sz"
proof -
  show "to_int sz = int sz" if "after_ints d sz p1 = Some p'" "length d < 2 ^ 31"
    using after_ints_bounds [OF that(1)] that(2) by (cases "sz = 0") (auto simp: to_int_def intro!: to_int_small [unfolded to_int_def])
  show "to_int sz = int sz" if "after_uints d sz p1 = Some p'" "length d < 2 ^ 31"
    using after_uints_bounds [OF that(1)] that(2) by (cases "sz = 0") (auto simp: to_int_def intro!: to_int_small [unfolded to_int_def])
  show "to_int sz = int sz" if "p1 + sz \<le> length d" "length d < 2 ^ 31"
    using that by (auto intro!: to_int_small)
qed

lemma big_bin_size: "read_bin_size big_bin_example 0 = Done 16385 3"
  by (simp add: big_bin_example_def read_bin_size_def idx_def be16_int_def)

lemma big_bin_read:
  "read_bin big_bin_example 0 (replicate 16384 0) 16384 =
     Done (16384, replicate 16384 0x5a) 16388"
  unfolding read_bin_def big_bin_size
  by (simp add: big_bin_example_def to_int_def memcpy_from_def)


lemma read_u8_array_bin:
  "pos < length d \<Longrightarrow> d ! pos = 0xc4 \<or> d ! pos = 0xc5 \<or> d ! pos = 0xc6 \<Longrightarrow>
   read_u8_array d pos arr max_size = read_bin d pos arr max_size"
  by (auto simp: read_u8_array_def idx_def)

lemma big_bin_read_u8:
  "read_u8_array big_bin_example 0 (replicate 16384 0) 16384 =
     Done (16384, replicate 16384 0x5a) 16388"
proof -
  have "0 < length big_bin_example" "big_bin_example ! 0 = 0xc5"
    by (simp_all add: big_bin_example_def)
  then show ?thesis
    by (simp add: read_u8_array_bin big_bin_read)
qed

text \<open>
  C2, as stated (the count returned is the full declared length), does not hold: each
  of the three decoders sets \<^verbatim>\<open>n = std::min(static_cast<int>(size), max_size)\<close>.  For a
  string that declares 16385 bytes and the cap 16384 the count returned is 16384.
\<close>

theorem returned_count_counterexample:
  "read_bin_size big_bin_example 0 = Done 16385 3 \<and>
   read_bin big_bin_example 0 (replicate 16384 0) 16384 =
     Done (16384, replicate 16384 0x5a) 16388 \<and>
   read_u8_array big_bin_example 0 (replicate 16384 0) 16384 =
     Done (16384, replicate 16384 0x5a) 16388"
  by (simp only: big_bin_size big_bin_read big_bin_read_u8 simp_thms)

text \<open>
  C2, amended: on success the sample count returned is the declared length capped at
  \<^verbatim>\<open>max_size\<close>, that is \<open>min declared max_size\<close>; it is \<^verbatim>\<open>max_size\<close> (16384 in every
  call of the program) whenever the declared length exceeds it.  The buffer is shorter
  than \<open>2 ^ 31\<close> bytes, as every block buffer is, so that \<^verbatim>\<open>static_cast<int>(size)\<close>
  is the declared length itself.
\<close>

theorem returned_count_is_capped:
  assumes "length d < 2 ^ 31"
  shows "(read_bin d pos arr8 max_size = Done (n, arr8') p' \<longrightarrow>
            (\<exists>sz p1. read_bin_size d pos = Done sz p1 \<and> n = min (int sz) max_size)) \<and>
         (read_u8_array d pos arr8 max_size = Done (n, arr8') p' \<longrightarrow>
            (\<exists>sz p1. (read_bin_size d pos = Done sz p1 \<or> read_array_header d pos = Done sz p1) \<and>
               n = min (int sz) max_size)) \<and>
         (read_i16_array d pos arr16 max_size = Done (n, arr16') p' \<longrightarrow>
            (\<exists>sz p1. read_array_header d pos = Done sz p1 \<and> n = min (int sz) max_size))"
proof (intro conjI impI)
  assume "read_bin d pos arr8 max_size = Done (n, arr8') p'"
  from read_bin_Done_size [OF this] assms
  show "\<exists>sz p1. read_bin_size d pos = Done sz p1 \<and> n = min (int sz) max_size"
    by (metis declared_fits(3))
next
  assume "read_u8_array d pos arr8 max_size = Done (n, arr8') p'"
  from read_u8_array_Done_size [OF this] assms
  show "\<exists>sz p1. (read_bin_size d pos = Done sz p1 \<or> read_array_header d pos = Done sz p1) \<and>
               n = min (int sz) max_size"
    by (metis declared_fits(2) declared_fits(3))
next
  assume "read_i16_array d pos arr16 max_size = Done (n, arr16') p'"
  from read_i16_array_Done_size [OF this] assms
  show "\<exists>sz p1. read_array_header d pos = Done sz p1 \<and> n = min (int sz) max_size"
    by (metis declared_fits(1))
qed

text \<open>The amended statement at the string of 16385 bytes.\<close>

lemma big_bin_length: "length big_bin_example < 2 ^ 31"
  by (simp add: big_bin_example_def)

theorem returned_count_is_capped_witness:
  "length big_bin_example < 2 ^ 31 \<and>
   read_bin big_bin_example 0 (replicate 16384 0) 16384 =
     Done (16384, replicate 16384 0x5a) 16388 \<and>
   (\<exists>sz p1. read_bin_size big_bin_example 0 = Done sz p1 \<and> sz = 16385 \<and>
      (16384 :: int) = min (int sz) 16384)"
proof -
  have "\<exists>sz p1. read_bin_size big_bin_example 0 = Done sz p1 \<and> sz = 16385 \<and>
      (16384 :: int) = min (int sz) 16384"
    using returned_count_is_capped [OF big_bin_length, of 0 "replicate 16384 0" 16384 16384
      "replicate 16384 0x5a" 16388]
    by (simp add: big_bin_read big_bin_size)
  with big_bin_length big_bin_read show ?thesis
    by (intro conjI)
qed

subsection \<open>C8: the cursor passes every declared element\<close>

text \<open>
  C8: whatever the cap, a successful sample-sequence decode leaves the read position
  behind the whole encoded sequence.  For a binary string that is the position behind the
  length field plus the declared length; for an array it is the position behind
  \<open>sz\<close> consecutive integers, \<open>sz\<close> being the declared element count.  The statement
  does not mention the cap: it holds when the declared count exceeds it as when it
  does not.
\<close>

theorem cursor_passes_all_declared:
  "(read_bin d pos arr8 max_size = Done (n, arr8') p' \<longrightarrow>
      (\<exists>sz p1. read_bin_size d pos = Done sz p1 \<and> p' = p1 + sz)) \<and>
   (read_u8_array d pos arr8 max_size = Done (n, arr8') p' \<longrightarrow>
      (\<exists>sz p1. read_bin_size d pos = Done sz p1 \<and> p' = p1 + sz) \<or>
      (\<exists>sz p1. read_array_header d pos = Done sz p1 \<and> after_uints d sz p1 = Some p')) \<and>
   (read_i16_array d pos arr16 max_size = Done (n, arr16') p' \<longrightarrow>
      (\<exists>sz p1. read_array_header d pos = Done sz p1 \<and> after_ints d sz p1 = Some p'))"
proof (intro conjI impI)
  assume "read_bin d pos arr8 max_size = Done (n, arr8') p'"
  from read_bin_Done_size [OF this]
  show "\<exists>sz p1. read_bin_size d pos = Done sz p1 \<and> p' = p1 + sz"
    by blast
next
  assume "read_u8_array d pos arr8 max_size = Done (n, arr8') p'"
  from read_u8_array_Done_size [OF this]
  show "(\<exists>sz p1. read_bin_size d pos = Done sz p1 \<and> p' = p1 + sz) \<or>
      (\<exists>sz p1. read_array_header d pos = Done sz p1 \<and> after_uints d sz p1 = Some p')"
    by blast
next
  assume "read_i16_array d pos arr16 max_size = Done (n, arr16') p'"
  from read_i16_array_Done_size [OF this]
  show "\<exists>sz p1. read_array_header d pos = Done sz p1 \<and> after_ints d sz p1 = Some p'"
    by blast
qed

text \<open>
  The statement at the string of 16385 bytes with the cap 16384, and at an array of
  three elements with the cap 2.
\<close>

lemma small_i16: "read_i16_array small_cap_example 0 [0, 0] 2 = Done (2, [1, 2]) 4"
  by (simp add: small_cap_example_def read_i16_array_def read_array_header_def read_int_def
      idx_def i16_loop.simps to_int_def)

lemma small_hdr: "read_array_header small_cap_example 0 = Done 3 1"
  by (simp add: small_cap_example_def read_array_header_def idx_def)

theorem cursor_passes_all_declared_witness:
  "read_bin big_bin_example 0 (replicate 16384 0) 16384 =
     Done (16384, replicate 16384 0x5a) 16388 \<and>
   (\<exists>sz p1. read_bin_size big_bin_example 0 = Done sz p1 \<and> sz = 16385 \<and>
      (16388 :: nat) = p1 + sz) \<and>
   read_i16_array small_cap_example 0 [0, 0] 2 = Done (2, [1, 2]) 4 \<and>
   (\<exists>sz p1. read_array_header small_cap_example 0 = Done sz p1 \<and> sz = 3 \<and>
      after_ints small_cap_example sz p1 = Some 4)"
proof -
  have "\<exists>sz p1. read_bin_size big_bin_example 0 = Done sz p1 \<and> sz = 16385 \<and>
      (16388 :: nat) = p1 + sz"
    using cursor_passes_all_declared [of big_bin_example 0 "replicate 16384 0" 16384 16384
      "replicate 16384 0x5a" 16388]
    by (simp add: big_bin_read big_bin_size)
  moreover have "\<exists>sz p1. read_array_header small_cap_example 0 = Done sz p1 \<and> sz = 3 \<and>
      after_ints small_cap_example sz p1 = Some 4"
    using cursor_passes_all_declared [of small_cap_example 0 "[0, 0]" 2 2 "[1, 2]" 4
      "[0, 0]" "[1, 2]"]
    by (simp add: small_i16 small_hdr)
  ultimately show ?thesis
    using big_bin_read small_i16 by (intro conjI)
qed

subsection \<open>C5: a digital probe as a byte string and as an array\<close>

lemma narrow_widen_byte: "(ucast (ucast (x :: byte) :: 64 word) :: byte) = x"
  by (rule bit_word_eqI) (auto simp: bit_simps)

lemma read_uint_fixint:
  "v \<le> 0x7f \<Longrightarrow> read_uint (pre @ [v] @ rest) (length pre) = Done (ucast v) (length pre + 1)"
  by (simp add: read_uint_def idx_def nth_append)

lemma read_uint_enc_u8:
  "read_uint (pre @ enc_u8 v @ rest) (length pre) = Done (ucast v) (length pre + length (enc_u8 v))"
  using read_uint_fixint [of v pre rest] read_uint_uint8 [of pre v rest]
  by (auto simp: enc_u8_def enc_uint8_def)

lemma fixarray_tag_upto:
  "list_all (\<lambda>n. ((0x90 :: byte) OR of_nat n) AND 0xf0 = 0x90 \<and>
      unat (((0x90 :: byte) OR of_nat n) AND 0x0f) = n) [0..<16]"
  by (simp add: upt_rec)

lemma fixarray_tag:
  assumes "n < 16"
  shows "((0x90 :: byte) OR of_nat n) AND 0xf0 = 0x90 \<and> unat (((0x90 :: byte) OR of_nat n) AND 0x0f) = n"
  using fixarray_tag_upto assms by (simp add: list_all_iff)

lemma read_array_header_enc:
  assumes "n < 65536"
  shows "read_array_header (pre @ enc_array_header n @ rest) (length pre) =
           Done n (length pre + length (enc_array_header n))"
proof (cases "n < 16")
  case True
  with fixarray_tag [OF True] show ?thesis
    by (simp add: read_array_header_def idx_def nth_append enc_array_header_def)
next
  case False
  have "unat (ucast (of_nat n :: 16 word) :: 64 word) = n"
    using assms by (simp add: unsigned_ucast_eq unat_of_nat take_bit_nat_eq_self_iff)
  with False assms show ?thesis
    by (simp add: read_array_header_def idx_def nth_append enc_array_header_def Let_def
        be16_int_split scast_ucast_16_32_64)
qed


lemma read_array_header_tag:
  assumes "read_array_header d pos = Done sz p"
  shows "pos < length d \<and> d ! pos \<noteq> 0xc4 \<and> d ! pos \<noteq> 0xc5 \<and> d ! pos \<noteq> 0xc6"
proof -
  from assms have lt: "pos < length d"
    by (auto simp: read_array_header_def split: if_splits)
  have "False" if "d ! pos = 0xc4 \<or> d ! pos = 0xc5 \<or> d ! pos = 0xc6"
    using that assms lt by (auto simp: read_array_header_def idx_def)
  with lt show ?thesis by blast
qed

lemma u8_loop_encoded:
  assumes "i + length xs \<le> nat max_size" and "nat max_size \<le> length arr"
    and "i + length xs < 2 ^ 31"
  shows "u8_loop (pre @ concat (map enc_u8 xs) @ rest) (i + length xs) max_size i (length pre) arr =
           Done (take i arr @ xs @ drop (i + length xs) arr)
                (length pre + length (concat (map enc_u8 xs)))"
  using assms
proof (induction xs arbitrary: pre i arr)
  case Nil
  show ?case
    by (simp add: u8_loop.simps [of _ i max_size i])
next
  case (Cons x xs)
  let ?d = "pre @ concat (map enc_u8 (x # xs)) @ rest"
  let ?sz = "i + length (x # xs)"
  have d: "?d = (pre @ enc_u8 x) @ concat (map enc_u8 xs) @ rest"
    by simp
  have rd: "read_uint ?d (length pre) = Done (ucast x) (length pre + length (enc_u8 x))"
    using read_uint_enc_u8 [of pre x "concat (map enc_u8 xs) @ rest"] by simp
  from Cons.prems have i: "i < ?sz" "to_int i < max_size" "i < length arr"
    by (simp_all add: to_int_small)
  have sz: "?sz = (i + 1) + length xs" by simp
  have "u8_loop ?d ?sz max_size i (length pre) arr =
        u8_loop ?d ?sz max_size (i + 1) (length pre + length (enc_u8 x)) (arr[i := x])"
    using i rd by (subst u8_loop.simps) (simp add: narrow_widen_byte)
  also have "\<dots> = Done (take (i + 1) (arr[i := x]) @ xs @ drop ((i + 1) + length xs) (arr[i := x]))
                (length (pre @ enc_u8 x) + length (concat (map enc_u8 xs)))"
    unfolding d sz using Cons.prems
    by (subst length_append [symmetric], intro Cons.IH) simp_all
  also have "take (i + 1) (arr[i := x]) = take i arr @ [x]"
    using i(3) by (simp add: take_Suc_conv_app_nth)
  also have "drop ((i + 1) + length xs) (arr[i := x]) = drop ?sz arr"
    by simp
  finally show ?case
    by simp
qed

lemma read_u8_array_of_array:
  assumes "length xs < 65536" and "int (length xs) \<le> max_size" and "nat max_size \<le> length arr"
  shows "read_u8_array (pre @ enc_u8_array xs @ rest) (length pre) arr max_size =
           Done (int (length xs), xs @ drop (length xs) arr)
                (length pre + length (enc_u8_array xs))"
proof -
  define h where "h = enc_array_header (length xs)"
  define body where "body = concat (map enc_u8 xs)"
  define d where "d = pre @ enc_u8_array xs @ rest"
  have d: "d = (pre @ h) @ body @ rest"
    by (simp add: d_def h_def body_def enc_u8_array_def)
  have hd: "read_array_header d (length pre) = Done (length xs) (length pre + length h)"
    using read_array_header_enc [OF assms(1), of pre "body @ rest"]
    by (simp add: d h_def)
  have loop: "u8_loop d (length xs) max_size 0 (length pre + length h) arr =
      Done (xs @ drop (length xs) arr) (length pre + length h + length body)"
    using u8_loop_encoded [of 0 xs max_size arr "pre @ h" rest] assms
    by (simp add: d body_def)
  have n: "min (to_int (length xs)) max_size = int (length xs)"
    using assms by (simp add: to_int_small)
  from read_array_header_tag [OF hd]
  have "read_u8_array d (length pre) arr max_size =
      Done (int (length xs), xs @ drop (length xs) arr) (length pre + length h + length body)"
    by (simp add: read_u8_array_def idx_def hd loop n Let_def)
  then show ?thesis
    by (simp add: d_def h_def body_def enc_u8_array_def)
qed

lemma read_u8_array_of_bin8:
  assumes "length xs \<le> 255" and "int (length xs) \<le> max_size" and "nat max_size \<le> length arr"
  shows "read_u8_array (pre @ enc_bin8 xs @ rest) (length pre) arr max_size =
           Done (int (length xs), xs @ drop (length xs) arr)
                (length pre + length (enc_bin8 xs))"
proof -
  let ?d = "pre @ enc_bin8 xs @ rest"
  have len: "unat (of_nat (length xs) :: byte) = length xs"
    using assms(1) by (simp add: unsigned_of_nat take_bit_nat_eq_self_iff)
  have sz: "read_bin_size ?d (length pre) = Done (length xs) (length pre + 2)"
    by (simp add: read_bin_size_def idx_def nth_append enc_bin8_def len)
  have n: "min (to_int (length xs)) max_size = int (length xs)"
    using assms by (simp add: to_int_small)
  have cnt: "unat (word_of_nat (length xs) :: 64 word) = length xs"
    using assms(1) by (simp add: unsigned_of_nat take_bit_nat_eq_self_iff)
  have "read_bin ?d (length pre) arr max_size =
      Done (int (length xs), xs @ drop (length xs) arr) (length pre + 2 + length xs)"
    using assms unfolding read_bin_def sz
    by (simp add: n memcpy_from_def cnt enc_bin8_def Let_def)
  moreover have "read_u8_array ?d (length pre) arr max_size = read_bin ?d (length pre) arr max_size"
    by (intro read_u8_array_bin) (simp_all add: enc_bin8_def nth_append)
  ultimately show ?thesis
    by (simp add: enc_bin8_def)
qed

text \<open>
  C5: for every sequence \<open>xs\<close> of 8-bit samples that a \<^verbatim>\<open>bin8\<close> string can hold (at
  most 255) and that is not longer than \<^verbatim>\<open>max_size\<close>, \<^verbatim>\<open>read_u8_array\<close> returns the
  same sample count \<open>length xs\<close> and leaves the same bytes \<open>xs\<close> in the first entries of
  the destination array, whether \<open>xs\<close> is encoded as a \<^verbatim>\<open>bin8\<close> string or as an array of
  unsigned integers, wherever the encoding stands in the buffer; in both cases the read
  position ends behind the encoding.
\<close>

theorem bin8_and_array_decode_alike:
  assumes "length xs \<le> 255" and "int (length xs) \<le> max_size" and "nat max_size \<le> length arr"
  shows "read_u8_array (pre @ enc_bin8 xs @ rest) (length pre) arr max_size =
           Done (int (length xs), xs @ drop (length xs) arr)
                (length pre + length (enc_bin8 xs)) \<and>
         read_u8_array (pre @ enc_u8_array xs @ rest) (length pre) arr max_size =
           Done (int (length xs), xs @ drop (length xs) arr)
                (length pre + length (enc_u8_array xs))"
proof
  show "read_u8_array (pre @ enc_bin8 xs @ rest) (length pre) arr max_size =
           Done (int (length xs), xs @ drop (length xs) arr)
                (length pre + length (enc_bin8 xs))"
    using assms by (rule read_u8_array_of_bin8)
  from assms(1) have "length xs < 65536" by simp
  then show "read_u8_array (pre @ enc_u8_array xs @ rest) (length pre) arr max_size =
           Done (int (length xs), xs @ drop (length xs) arr)
                (length pre + length (enc_u8_array xs))"
    using assms(2,3) by (rule read_u8_array_of_array)
qed

text \<open>
  The statement for the samples 1, 128 and 3 with the cap and the capacity of the
  program, together with the two encodings written out.
\<close>

theorem bin8_and_array_decode_alike_witness:
  "length [1, 0x80, 3 :: byte] \<le> 255 \<and> int (length [1, 0x80, 3 :: byte]) \<le> 16384 \<and>
   nat 16384 \<le> length (replicate 16384 (0 :: byte)) \<and>
   enc_bin8 [1, 0x80, 3] = [0xc4, 3, 1, 0x80, 3] \<and>
   enc_u8_array [1, 0x80, 3] = [0x93, 1, 0xcc, 0x80, 3] \<and>
   read_u8_array (enc_bin8 [1, 0x80, 3]) 0 (replicate 16384 0) 16384 =
     Done (3, [1, 0x80, 3] @ replicate 16381 0) 5 \<and>
   read_u8_array (enc_u8_array [1, 0x80, 3]) 0 (replicate 16384 0) 16384 =
     Done (3, [1, 0x80, 3] @ replicate 16381 0) 5"
proof -
  have e: "enc_bin8 [1, 0x80, 3] = [0xc4, 3, 1, 0x80, 3]"
    "enc_u8_array [1, 0x80, 3] = [0x93, 1, 0xcc, 0x80, 3]"
    by (simp_all add: enc_bin8_def enc_u8_array_def enc_array_header_def enc_u8_def enc_uint8_def)
  have l: "length (enc_bin8 [1, 0x80, 3]) = 5" "length (enc_u8_array [1, 0x80, 3]) = 5"
    by (simp_all add: e)
  have "read_u8_array (enc_bin8 [1, 0x80, 3]) 0 (replicate 16384 0) 16384 =
     Done (3, [1, 0x80, 3] @ replicate 16381 0) 5 \<and>
   read_u8_array (enc_u8_array [1, 0x80, 3]) 0 (replicate 16384 0) 16384 =
     Done (3, [1, 0x80, 3] @ replicate 16381 0) 5"
    using bin8_and_array_decode_alike [of "[1, 0x80, 3]" 16384 "replicate 16384 0" "[]" "[]"]
    by (simp add: l)
  with e show ?thesis
    by simp
qed

subsection \<open>Reading a file of the documented layout\<close>

lemma le32_join:
  "ucast (ucast w :: byte) OR push_bit 8 (ucast (ucast (drop_bit 8 w) :: byte)) OR
   push_bit 16 (ucast (ucast (drop_bit 16 w) :: byte)) OR
   push_bit 24 (ucast (ucast (drop_bit 24 w) :: byte)) = (w :: 32 word)"
proof (rule bit_word_eqI)
  fix n :: nat
  assume "n < LENGTH(32)"
  then consider "n < 8" | "8 \<le> n" "n < 16" | "16 \<le> n" "n < 24" | "24 \<le> n" "n < 32"
    by (simp, linarith)
  then show "bit (ucast (ucast w :: byte) OR push_bit 8 (ucast (ucast (drop_bit 8 w) :: byte)) OR
   push_bit 16 (ucast (ucast (drop_bit 16 w) :: byte)) OR
   push_bit 24 (ucast (ucast (drop_bit 24 w) :: byte)) :: 32 word) n = bit w n"
    by cases (simp_all add: bit_simps less_diff_conv2)
qed

lemma length_le32 [simp]: "length (le32 n) = 4"
  by (simp add: le32_def Let_def)

lemma stream_read_exact:
  assumes "good f" and "content f = pre @ xs @ rest" and "gpos f = length pre"
  shows "stream_read old f (length xs) = (xs, f\<lparr>gpos := length pre + length xs\<rparr>)"
  using assms by (simp add: stream_read_def Let_def)

lemma read_u32_le_le32:
  assumes "good f" and "content f = pre @ le32 n @ rest" and "gpos f = length pre"
  shows "read_u32_le u f = (of_nat n, f\<lparr>gpos := length pre + 4\<rparr>)"
proof -
  from stream_read_exact [OF assms, of "u_buf4 u"]
  have "stream_read (u_buf4 u) f 4 = (le32 n, f\<lparr>gpos := length pre + 4\<rparr>)"
    by simp
  then show ?thesis
    by (simp add: read_u32_le_def le32_def Let_def le32_join)
qed

lemma block_len_ok:
  assumes "1 \<le> n" and "n \<le> 100000000"
  shows "unat (of_nat n :: 32 word) = n" and "(of_nat n :: 32 word) \<noteq> 0"
    and "\<not> (of_nat n :: 32 word) > 100000000"
proof -
  show u: "unat (of_nat n :: 32 word) = n"
    using assms by (simp add: unsigned_of_nat take_bit_nat_eq_self_iff)
  from u assms show "(of_nat n :: 32 word) \<noteq> 0"
    by (metis not_one_le_zero unsigned_0)
  from u assms show "\<not> (of_nat n :: 32 word) > 100000000"
    by (simp add: word_less_nat_alt)
qed

subsection \<open>C6: an invalid block length ends the decode\<close>

lemma read_u32_le_gpos:
  "read_u32_le u f = (v, f') \<Longrightarrow> content f' = content f \<and> gpos f \<le> gpos f' \<and> gpos f' \<le> gpos f + 4"
  by (auto simp: read_u32_le_def stream_read_def Let_def split: if_splits prod.splits)

text \<open>
  C6: in both readers, whenever the loop is entered and the block length it reads is 0
  or exceeds 100000000, the loop is left at once.  The result of the whole loop from that
  state on is the state itself with the stream behind the length field and the warning
  added: the events, the tree and the block count are the ones on entry, so neither that
  block nor any later one is processed; the stream has moved by at most the four bytes of
  the length field, so no payload byte has been read.
\<close>

theorem invalid_block_length_stops:
  assumes "block_len = 0 \<or> block_len > 100000000"
  shows "(tellg (rd_f st) < data_end \<and> read_u32_le u (rd_f st) = (block_len, f) \<longrightarrow>
            read_blocks granted u data_end max_events st =
              st\<lparr>rd_f := f, cerr := cerr st @ [InvalidBlockLength block_len]\<rparr> \<and>
            content f = content (rd_f st) \<and> gpos f \<le> gpos (rd_f st) + 4) \<and>
         (tellg (ct_f ct) < data_end \<and> read_u32_le u (ct_f ct) = (block_len, f) \<longrightarrow>
            ct_blocks u data_end max_events ct =
              ct\<lparr>ct_f := f, ct_cerr := ct_cerr ct @ [InvalidBlockLength block_len]\<rparr> \<and>
            content f = content (ct_f ct) \<and> gpos f \<le> gpos (ct_f ct) + 4)"
proof (intro conjI impI)
  assume a: "tellg (rd_f st) < data_end \<and> read_u32_le u (rd_f st) = (block_len, f)"
  with assms show "read_blocks granted u data_end max_events st =
              st\<lparr>rd_f := f, cerr := cerr st @ [InvalidBlockLength block_len]\<rparr>"
    by (subst read_blocks.simps) auto
  from a read_u32_le_gpos [of u "rd_f st" block_len f]
  show "content f = content (rd_f st)" "gpos f \<le> gpos (rd_f st) + 4"
    by simp_all
next
  assume a: "tellg (ct_f ct) < data_end \<and> read_u32_le u (ct_f ct) = (block_len, f)"
  with assms show "ct_blocks u data_end max_events ct =
              ct\<lparr>ct_f := f, ct_cerr := ct_cerr ct @ [InvalidBlockLength block_len]\<rparr>"
    by (subst ct_blocks.simps) auto
  from a read_u32_le_gpos [of u "ct_f ct" block_len f]
  show "content f = content (ct_f ct)" "gpos f \<le> gpos (ct_f ct) + 4"
    by simp_all
qed

lemma zero_length_read:
  "read_u32_le uninit_zero zero_length_stream = (0, zero_length_stream\<lparr>gpos := 4\<rparr>)"
  using read_u32_le_le32 [of zero_length_stream "[]" 0 "frame batch_example @ replicate 64 0"
      uninit_zero]
  by (simp add: zero_length_stream_def)

lemma zero_length_tellg: "tellg zero_length_stream < 28"
  by (simp add: tellg_def zero_length_stream_def)

text \<open>
  The statement at a stream that holds a block length of 0 followed by a well-formed
  block: the well-formed block is not read.
\<close>

theorem invalid_block_length_stops_witness:
  "tellg (rd_f zero_length_rd) < 28 \<and>
   read_u32_le uninit_zero (rd_f zero_length_rd) = (0, zero_length_stream\<lparr>gpos := 4\<rparr>) \<and>
   read_blocks (\<lambda>n. True) uninit_zero 28 (- 1) zero_length_rd =
     zero_length_rd\<lparr>rd_f := zero_length_stream\<lparr>gpos := 4\<rparr>, cerr := [InvalidBlockLength 0]\<rparr> \<and>
   tellg (ct_f zero_length_ct) < 28 \<and>
   read_u32_le uninit_zero (ct_f zero_length_ct) = (0, zero_length_stream\<lparr>gpos := 4\<rparr>) \<and>
   ct_blocks uninit_zero 28 (- 1) zero_length_ct =
     zero_length_ct\<lparr>ct_f := zero_length_stream\<lparr>gpos := 4\<rparr>,
       ct_cerr := [InvalidBlockLength 0]\<rparr>"
  using invalid_block_length_stops [of 0 zero_length_rd 28 uninit_zero
      "zero_length_stream\<lparr>gpos := 4\<rparr>" "\<lambda>n. True" "- 1" zero_length_ct]
  by (simp add: zero_length_read zero_length_tellg zero_length_rd_def zero_length_ct_def)

subsection \<open>C7: a wrong footer magic is only a warning\<close>

lemma length_frame [simp]: "length (frame b) = 4 + length b"
  by (simp add: frame_def)

lemma incr_below: "x < 2 ^ 31 - 1 \<Longrightarrow> incr 32 x = Some (x + 1)"
  by (simp add: incr_def)

lemma read_blocks_framed:
  assumes "good (rd_f st)"
    and "content (rd_f st) = pre @ concat (map frame bs) @ rest"
    and "gpos (rd_f st) = length pre"
    and "data_end = int (length pre + length (concat (map frame bs)))"
    and "\<forall>b \<in> set bs. 1 \<le> length b \<and> length b \<le> 100000000"
    and "block_count st + int (length bs) < 2 ^ 31"
    and "decode_blocks granted max_events bs (all_events st) (block_count st) = (evs, bc, ds)"
  shows "all_events (read_blocks granted u data_end max_events st) = evs \<and>
         block_count (read_blocks granted u data_end max_events st) = bc \<and>
         cerr (read_blocks granted u data_end max_events st) = cerr st @ ds"
  using assms
proof (induction bs arbitrary: pre st)
  case Nil
  then have "\<not> tellg (rd_f st) < data_end"
    by (simp add: tellg_def)
  then have "read_blocks granted u data_end max_events st = st"
    by (subst read_blocks.simps) simp
  with Nil.prems(7) show ?case
    by simp
next
  case (Cons b bs)
  let ?f0 = "rd_f st"
  let ?f1 = "?f0\<lparr>gpos := length pre + 4\<rparr>"
  let ?f2 = "?f0\<lparr>gpos := length pre + 4 + length b\<rparr>"
  let ?len = "of_nat (length b) :: 32 word"
  from Cons.prems(5) have b: "1 \<le> length b" "length b \<le> 100000000"
    by simp_all
  have c0: "content ?f0 = pre @ le32 (length b) @ (b @ concat (map frame bs) @ rest)"
    using Cons.prems(2) by (simp add: frame_def [of b])
  have cond: "tellg ?f0 < data_end"
    using Cons.prems(1,3,4) by (simp add: tellg_def)
  have r1: "read_u32_le u ?f0 = (?len, ?f1)"
    using read_u32_le_le32 [OF Cons.prems(1) c0 Cons.prems(3)] .
  have c1: "content ?f1 = (pre @ le32 (length b)) @ b @ concat (map frame bs) @ rest"
    using c0 by simp
  have r2: "read_block ?f1 ?len = (b, ?f2)"
    using stream_read_exact [of ?f1 "pre @ le32 (length b)" b "concat (map frame bs) @ rest" "\<lambda>i. 0"]
      Cons.prems(1) c1
    by (simp add: read_block_def block_len_ok(1) [OF b])
  have g2: "good ?f2"
    using Cons.prems(1) by simp
  have inc: "incr 32 (block_count st) = Some (block_count st + 1)"
    using Cons.prems(6) by (intro incr_below) simp
  note lenok = block_len_ok(2,3) [OF b]
  show ?case
  proof (cases "parse_batch granted b 0")
    case (Failed p)
    then have "read_blocks granted u data_end max_events st =
        st\<lparr>rd_f := ?f2, cerr := cerr st @ [FailedToParseBlock (block_count st)]\<rparr>"
      using cond r1 r2 g2 lenok by (subst read_blocks.simps) simp
    with Failed Cons.prems(7) show ?thesis
      by auto
  next
    case (Fault k)
    then have "read_blocks granted u data_end max_events st =
        st\<lparr>rd_f := ?f2, cerr := cerr st @ [Abandoned k]\<rparr>"
      using cond r1 r2 g2 lenok by (subst read_blocks.simps) simp
    with Fault Cons.prems(7) show ?thesis
      by auto
  next
    case (Done r p)
    obtain source_id events where r: "r = (source_id, events)"
      by (cases r)
    define evs' where "evs' = push_events max_events (all_events st) events"
    define st' where "st' = st\<lparr>rd_f := ?f2, all_events := evs', block_count := block_count st + 1\<rparr>"
    show ?thesis
    proof (cases "max_events > 0 \<and> to_int (length evs') \<ge> max_events")
      case True
      then have "read_blocks granted u data_end max_events st = st'"
        using cond r1 r2 g2 lenok Done r inc
        by (subst read_blocks.simps) (simp add: evs'_def st'_def Let_def)
      moreover from True Done r Cons.prems(7) have "(evs, bc, ds) = (evs', block_count st + 1, [])"
        by (simp add: evs'_def Let_def)
      ultimately show ?thesis
        by (simp add: st'_def)
    next
      case False
      then have step: "read_blocks granted u data_end max_events st =
          read_blocks granted u data_end max_events st'"
        using cond r1 r2 g2 lenok Done r inc
        by (subst read_blocks.simps) (auto simp add: evs'_def st'_def Let_def)
      from False Done r Cons.prems(7)
      have dec: "decode_blocks granted max_events bs (all_events st') (block_count st') =
          (evs, bc, ds)"
        by (auto simp add: evs'_def st'_def Let_def split: if_splits)
      have "all_events (read_blocks granted u data_end max_events st') = evs \<and>
         block_count (read_blocks granted u data_end max_events st') = bc \<and>
         cerr (read_blocks granted u data_end max_events st') = cerr st' @ ds"
      proof (rule Cons.IH [of st' "pre @ frame b"])
        show "good (rd_f st')" using Cons.prems(1) by (simp add: st'_def)
        show "content (rd_f st') = (pre @ frame b) @ concat (map frame bs) @ rest"
          using Cons.prems(2) by (simp add: st'_def)
        show "gpos (rd_f st') = length (pre @ frame b)"
          by (simp add: st'_def)
        show "data_end = int (length (pre @ frame b) + length (concat (map frame bs)))"
          using Cons.prems(4) by simp
        show "\<forall>b \<in> set bs. 1 \<le> length b \<and> length b \<le> 100000000"
          using Cons.prems(5) by simp
        show "block_count st' + int (length bs) < 2 ^ 31"
          using Cons.prems(6) by (simp add: st'_def)
        show "decode_blocks granted max_events bs (all_events st') (block_count st') =
            (evs, bc, ds)"
          by (rule dec)
      qed
      with step show ?thesis
        by (simp add: st'_def)
    qed
  qed
qed

lemma parse_batch_Done_nonempty:
  "parse_batch granted b 0 = Done r p \<Longrightarrow> 1 \<le> length b"
  unfolding parse_batch_def
  by (auto simp: and_then_eq_Done dest!: read_array_header_Done)

lemma decode_blocks_parsed:
  "\<forall>b \<in> set bs. \<exists>r p. parse_batch granted b 0 = Done r p \<Longrightarrow>
   snd (snd (decode_blocks granted max_events bs evs bc)) = []"
proof (induction bs arbitrary: evs bc)
  case Nil
  show ?case by simp
next
  case (Cons b bs)
  from Cons.prems obtain r p where "parse_batch granted b 0 = Done r p"
    by auto
  with Cons show ?case
    by (cases r) (simp add: Let_def)
qed

lemma push_events_unlimited:
  "max_events \<le> 0 \<Longrightarrow> push_events max_events acc events = acc @ events"
  by (induction events arbitrary: acc) (simp_all add: Let_def)

lemma decode_blocks_unlimited:
  "max_events \<le> 0 \<Longrightarrow> \<forall>b \<in> set bs. \<exists>r p. parse_batch granted b 0 = Done r p \<Longrightarrow>
   decode_blocks granted max_events bs evs bc =
     (evs @ concat (map (block_events granted) bs), bc + int (length bs), [])"
proof (induction bs arbitrary: evs bc)
  case Nil
  show ?case by simp
next
  case (Cons b bs)
  from Cons.prems obtain r p where "parse_batch granted b 0 = Done r p"
    by auto
  with Cons show ?case
    by (cases r) (simp add: Let_def push_events_unlimited block_events_def)
qed

lemma stream_read_enough:
  assumes "good f" and "gpos f + n \<le> length (content f)"
  shows "stream_read old f n =
           (take n (drop (gpos f) (content f)), f\<lparr>gpos := gpos f + n\<rparr>)"
  using assms by (simp add: stream_read_def Let_def)

lemma read_u64_le_enough:
  assumes "good f" and "gpos f + 8 \<le> length (content f)"
  shows "snd (read_u64_le u f) = f\<lparr>gpos := gpos f + 8\<rparr>"
  using stream_read_enough [OF assms, of "u_buf8 u"]
  by (simp add: read_u64_le_def)

lemma read_footer_trailer:
  assumes "good f" and "content f = body @ trailer" and "length trailer = 64"
  shows "\<exists>ft f'. read_footer u f (length (body @ trailer)) =
           ((if take 8 trailer = FOOTER_MAGIC then [] else [InvalidFooterMagic]), ft, f') \<and>
           good f' \<and> content f' = content f"
proof -
  let ?f0 = "seekg f (int (length (body @ trailer) - FOOTER_SIZE))"
  have f0: "?f0 = f\<lparr>gpos := length body\<rparr>"
    using assms by (simp add: seekg_def FOOTER_SIZE_def)
  let ?f1 = "f\<lparr>gpos := length body + 8\<rparr>"
  have s1: "stream_read (u_footer_magic u) ?f0 8 = (take 8 trailer, ?f1)"
    unfolding f0 using stream_read_enough [of "f\<lparr>gpos := length body\<rparr>" 8 "u_footer_magic u"] assms
    by simp
  have big: "\<not> length (body @ trailer) < FOOTER_SIZE"
    using assms by (simp add: FOOTER_SIZE_def)
  show ?thesis
  proof (cases "take 8 trailer = FOOTER_MAGIC")
    case False
    then have "read_footer u f (length (body @ trailer)) = ([InvalidFooterMagic], None, ?f1)"
      using big s1 unfolding read_footer_def by (simp add: Let_def)
    with False assms show ?thesis
      by simp
  next
    case True
    define g where "g k = f\<lparr>gpos := length body + 8 + 8 * k\<rparr>" for k :: nat
    have g0: "?f1 = g 0" by (simp add: g_def)
    have step: "snd (read_u64_le u (g k)) = g (Suc k)" if "k < 6" for k
      using read_u64_le_enough [of "g k" u] assms that by (simp add: g_def)
    have stepf: "snd (read_f64_le u (g k)) = g (Suc k)" if "k < 6" for k
      using step [OF that] by (simp add: read_f64_le_def)
    have last: "snd (stream_read (u_write_complete u) (g 6) 1) = f\<lparr>gpos := length body + 57\<rparr>"
      using stream_read_enough [of "g 6" 1 "u_write_complete u"] assms by (simp add: g_def)
    have "\<exists>ft. read_footer u f (length (body @ trailer)) = ([], ft, f\<lparr>gpos := length body + 57\<rparr>)"
      using big s1 True step [of 0] step [of 1] step [of 2] stepf [of 3] stepf [of 4] step [of 5] last
      unfolding read_footer_def g0
      by (simp add: Let_def split_beta eval_nat_numeral)
    with True assms show ?thesis
      by auto
  qed
qed

lemma length_FILE_MAGIC [simp]: "length FILE_MAGIC = 8"
  by (simp add: FILE_MAGIC_def)

lemma read_header_file:
  assumes "length hdr < 2 ^ 32"
  shows "read_header u (open_file (FILE_MAGIC @ le32 (length hdr) @ hdr @ rest)) =
           (Some (int (12 + length hdr)),
            \<lparr>content = FILE_MAGIC @ le32 (length hdr) @ hdr @ rest,
             gpos = 12 + length hdr, good = True\<rparr>)"
proof -
  define c where "c = FILE_MAGIC @ le32 (length hdr) @ hdr @ rest"
  define f0 where "f0 = \<lparr>content = c, gpos = 0, good = True\<rparr>"
  define f8 where "f8 = \<lparr>content = c, gpos = 8, good = True\<rparr>"
  define f12 where "f12 = \<lparr>content = c, gpos = 12, good = True\<rparr>"
  have m: "stream_read (u_magic u) f0 8 = (FILE_MAGIC, f8)"
    using stream_read_exact [of f0 "[]" FILE_MAGIC "le32 (length hdr) @ hdr @ rest" "u_magic u"]
    by (simp add: f0_def f8_def c_def)
  have l: "read_u32_le u f8 = (of_nat (length hdr), f12)"
    using read_u32_le_le32 [of f8 FILE_MAGIC "length hdr" "hdr @ rest" u]
    by (simp add: f8_def f12_def c_def)
  have u: "uint (of_nat (length hdr) :: 32 word) = int (length hdr)"
    using assms by (simp add: unsigned_of_nat take_bit_nat_eq_self_iff)
  have "read_header u f0 = (Some (int (12 + length hdr)), \<lparr>content = c, gpos = 12 + length hdr, good = True\<rparr>)"
    unfolding read_header_def m
    by (simp add: l u seekg_cur_def seekg_def tellg_def) (simp add: f12_def)
  then show ?thesis
    by (simp add: open_file_def f0_def c_def)
qed

text \<open>
  C7: take a file of the documented layout (a header shorter than \<open>2 ^ 32\<close> bytes, fewer
  than \<open>2 ^ 31\<close> blocks, a trailer of 64 bytes) whose blocks are well-formed: each holds
  at most 100000000 bytes and \<^verbatim>\<open>parse_batch\<close> decodes it, which includes that the
  memory for the events it declares is granted.  Then \<^verbatim>\<open>read_delila\<close> yields exactly the
  events decoded from the data region, whatever the trailer holds: the events of the
  blocks in file order, up to \<^verbatim>\<open>max_events\<close> when that is positive, and all of them
  otherwise.  The trailer shows in the messages only: the warning about the footer magic
  is there exactly when the trailer does not begin with \<^verbatim>\<open>DLEND002\<close>, and there is no
  other message.
\<close>

theorem footer_magic_mismatch_only_warns:
  assumes "length trailer = 64" and "length hdr < 2 ^ 32" and "length blocks < 2 ^ 31"
    and "\<forall>b \<in> set blocks. length b \<le> 100000000 \<and> (\<exists>r p. parse_batch granted b 0 = Done r p)"
    and "decode_blocks granted max_events blocks [] 0 = (evs, bc, ds)"
  shows "all_events (read_delila granted u (delila_file hdr blocks trailer) max_events) = evs \<and>
         block_count (read_delila granted u (delila_file hdr blocks trailer) max_events) = bc \<and>
         cerr (read_delila granted u (delila_file hdr blocks trailer) max_events) =
           (if take 8 trailer = FOOTER_MAGIC then [] else [InvalidFooterMagic]) \<and>
         ds = [] \<and>
         (max_events \<le> 0 \<longrightarrow>
            evs = concat (map (block_events granted) blocks) \<and> bc = int (length blocks))"
proof -
  define pre where "pre = FILE_MAGIC @ le32 (length hdr) @ hdr"
  define body where "body = pre @ concat (map frame blocks)"
  define bytes where "bytes = delila_file hdr blocks trailer"
  define warn where "warn = (if take 8 trailer = FOOTER_MAGIC then [] else [InvalidFooterMagic])"
  have bytes: "bytes = body @ trailer" "bytes = FILE_MAGIC @ le32 (length hdr) @ hdr @ concat (map frame blocks) @ trailer"
    by (simp_all add: bytes_def body_def pre_def delila_file_def)
  have lpre: "length pre = 12 + length hdr"
    by (simp add: pre_def)
  have parsed: "\<forall>b \<in> set blocks. \<exists>r p. parse_batch granted b 0 = Done r p"
    using assms(4) by simp
  have sizes: "\<forall>b \<in> set blocks. 1 \<le> length b \<and> length b \<le> 100000000"
  proof
    fix b
    assume "b \<in> set blocks"
    with assms(4) obtain r p where "length b \<le> 100000000"
      and "parse_batch granted b 0 = Done r p"
      by blast
    with parse_batch_Done_nonempty [of granted b r p]
    show "1 \<le> length b \<and> length b \<le> 100000000"
      by simp
  qed
  have ds: "ds = []"
    using decode_blocks_parsed [OF parsed, of max_events "[]" 0] assms(5) by simp
  define fh where "fh = \<lparr>content = bytes, gpos = 12 + length hdr, good = True\<rparr>"
  have h: "read_header u (open_file bytes) = (Some (int (12 + length hdr)), fh)"
    unfolding bytes(2) fh_def using read_header_file [OF assms(2), of u] by simp
  obtain ft ff where ftr: "read_footer u fh (length bytes) = (warn, ft, ff)"
    and ff: "good ff" "content ff = bytes"
    using read_footer_trailer [of fh body trailer u] assms(1)
    by (auto simp: fh_def bytes(1) warn_def)
  define st where "st = \<lparr>rd_f = seekg ff (int (12 + length hdr)), all_events = [],
      block_count = 0, cerr = warn\<rparr>"
  have rd: "read_delila granted u bytes max_events =
      read_blocks granted u (int (length bytes) - int FOOTER_SIZE) max_events st"
    unfolding read_delila_def by (simp add: h ftr st_def Let_def)
  have "all_events (read_blocks granted u (int (length bytes) - int FOOTER_SIZE) max_events st) = evs \<and>
        block_count (read_blocks granted u (int (length bytes) - int FOOTER_SIZE) max_events st) = bc \<and>
        cerr (read_blocks granted u (int (length bytes) - int FOOTER_SIZE) max_events st) = cerr st @ ds"
  proof (rule read_blocks_framed [of st pre blocks trailer])
    show "good (rd_f st)" using ff by (simp add: st_def seekg_def)
    show "content (rd_f st) = pre @ concat (map frame blocks) @ trailer"
      using ff by (simp add: st_def seekg_def bytes(1) body_def)
    show "gpos (rd_f st) = length pre"
      using ff by (simp add: st_def seekg_def lpre)
    show "int (length bytes) - int FOOTER_SIZE = int (length pre + length (concat (map frame blocks)))"
      using assms(1) by (simp add: bytes(1) body_def FOOTER_SIZE_def)
    show "\<forall>b \<in> set blocks. 1 \<le> length b \<and> length b \<le> 100000000"
      by (rule sizes)
    show "block_count st + int (length blocks) < 2 ^ 31"
      using assms(3) by (simp add: st_def)
    show "decode_blocks granted max_events blocks (all_events st) (block_count st) = (evs, bc, ds)"
      using assms(5) by (simp add: st_def)
  qed
  then have main: "all_events (read_delila granted u bytes max_events) = evs \<and>
         block_count (read_delila granted u bytes max_events) = bc \<and>
         cerr (read_delila granted u bytes max_events) = warn"
    unfolding rd by (simp add: st_def ds)
  have "evs = concat (map (block_events granted) blocks) \<and> bc = int (length blocks)"
    if "max_events \<le> 0"
    using decode_blocks_unlimited [OF that parsed, of "[]" 0] assms(5) by simp
  with main ds show ?thesis
    unfolding bytes_def warn_def by simp
qed

lemma batch_example_parse:
  "parse_batch (\<lambda>n. True) batch_example 0 =
     Done (1, [\<lparr>module = 1, channel = 2, energy = 100, energy_short = 50,
                 timestamp_ns = 0x40934A0000000000, flags = 0\<rparr>]) 20"
  by (simp add: batch_example_def event6_example_def parse_batch_def batch_events.simps
      parse_event_minimal_def read_array_header_def read_uint_def read_float64_def idx_def
      Let_def be64_def)

lemma batch_example_length: "length batch_example = 20"
  by (simp add: batch_example_def event6_example_def)

lemma zero_trailer: "take 8 (replicate 64 (0 :: byte)) \<noteq> FOOTER_MAGIC"
proof
  assume "take 8 (replicate 64 (0 :: byte)) = FOOTER_MAGIC"
  then have "take 8 (replicate 64 (0 :: byte)) ! 0 = FOOTER_MAGIC ! 0"
    by simp
  then show False
    by (simp add: FOOTER_MAGIC_def)
qed

text \<open>
  The statement at a file of two blocks, each the batch of the end-to-end example, with a
  trailer of 64 zero bytes: both events are decoded, and the only message is the warning.
\<close>

theorem footer_magic_mismatch_only_warns_witness:
  "length (replicate 64 (0 :: byte)) = 64 \<and> length ([] :: byte list) < 2 ^ 32 \<and>
   length [batch_example, batch_example] < 2 ^ 31 \<and>
   length batch_example \<le> 100000000 \<and>
   parse_batch (\<lambda>n. True) batch_example 0 =
     Done (1, [\<lparr>module = 1, channel = 2, energy = 100, energy_short = 50,
                 timestamp_ns = 0x40934A0000000000, flags = 0\<rparr>]) 20 \<and>
   take 8 (replicate 64 (0 :: byte)) \<noteq> FOOTER_MAGIC \<and>
   all_events (read_delila (\<lambda>n. True) uninit_zero
       (delila_file [] [batch_example, batch_example] (replicate 64 0)) (- 1)) =
     [\<lparr>module = 1, channel = 2, energy = 100, energy_short = 50,
        timestamp_ns = 0x40934A0000000000, flags = 0\<rparr>,
      \<lparr>module = 1, channel = 2, energy = 100, energy_short = 50,
        timestamp_ns = 0x40934A0000000000, flags = 0\<rparr>] \<and>
   block_count (read_delila (\<lambda>n. True) uninit_zero
       (delila_file [] [batch_example, batch_example] (replicate 64 0)) (- 1)) = 2 \<and>
   cerr (read_delila (\<lambda>n. True) uninit_zero
       (delila_file [] [batch_example, batch_example] (replicate 64 0)) (- 1)) =
     [InvalidFooterMagic]"
  using footer_magic_mismatch_only_warns [of "replicate 64 0" "[]"
      "[batch_example, batch_example]" "\<lambda>n. True" "- 1"
      "[\<lparr>module = 1, channel = 2, energy = 100, energy_short = 50,
         timestamp_ns = 0x40934A0000000000, flags = 0\<rparr>,
        \<lparr>module = 1, channel = 2, energy = 100, energy_short = 50,
         timestamp_ns = 0x40934A0000000000, flags = 0\<rparr>]" 2 "[]" uninit_zero]
  by (simp add: batch_example_parse batch_example_length zero_trailer [simplified])

subsection \<open>The buffers the program builds\<close>

text \<open>
  The parser is only ever constructed over \<^verbatim>\<open>block_data\<close>, whose length is the block
  length that has passed the check against 100000000, and a successful sample decode
  returns the destination array with the number of entries it had: the bounds assumed
  for C9 and C10 hold in every call the program makes.
\<close>

lemma read_block_length: "length (fst (read_block f block_len)) = unat block_len"
  by (simp add: read_block_def stream_read_def Let_def)

lemma block_len_below:
  "\<not> (block_len :: 32 word) > 100000000 \<Longrightarrow> unat block_len < 2 ^ 31"
  by (simp add: word_less_nat_alt)

lemma read_bin_keeps_capacity:
  "read_bin d pos arr max_size = Done (n, arr') p' \<Longrightarrow> length arr' = length arr"
  unfolding read_bin_def Let_def memcpy_from_def
  by (auto simp: and_then_eq_Done split: if_splits)

lemma i16_loop_keeps_capacity:
  "i16_loop d sz max_size i pos arr = Done arr' p' \<Longrightarrow> length arr' = length arr"
proof (induction d sz max_size i pos arr rule: i16_loop.induct)
  case (1 d sz max_size i pos arr)
  show ?case
  proof (cases "i < sz")
    case False
    with "1.prems" show ?thesis
      by (simp add: i16_loop.simps [of d sz max_size i pos arr])
  next
    case True
    from "1.prems" True obtain v p where rd: "read_int d pos = Done v p"
      and rest: "(if to_int i < max_size then
            (if i < length arr then i16_loop d sz max_size (i + 1) p (arr[i := ucast v])
             else Fault DestOverflow)
          else i16_loop d sz max_size (i + 1) p arr) = Done arr' p'"
      by (auto simp: i16_loop.simps [of d sz max_size i pos arr] and_then_eq_Done)
    show ?thesis
    proof (cases "to_int i < max_size")
      case st: True
      with rest have il: "i < length arr"
        and r: "i16_loop d sz max_size (i + 1) p (arr[i := ucast v]) = Done arr' p'"
        by (auto split: if_splits)
      from "1.IH"(1) [OF True st il r] show ?thesis by simp
    next
      case st: False
      with rest have r: "i16_loop d sz max_size (i + 1) p arr = Done arr' p'"
        by simp
      from "1.IH"(2) [OF True st r] show ?thesis .
    qed
  qed
qed
lemma u8_loop_keeps_capacity:
  "u8_loop d sz max_size i pos arr = Done arr' p' \<Longrightarrow> length arr' = length arr"
proof (induction d sz max_size i pos arr rule: u8_loop.induct)
  case (1 d sz max_size i pos arr)
  show ?case
  proof (cases "i < sz")
    case False
    with "1.prems" show ?thesis
      by (simp add: u8_loop.simps [of d sz max_size i pos arr])
  next
    case True
    from "1.prems" True obtain v p where rd: "read_uint d pos = Done v p"
      and rest: "(if to_int i < max_size then
            (if i < length arr then u8_loop d sz max_size (i + 1) p (arr[i := ucast v])
             else Fault DestOverflow)
          else u8_loop d sz max_size (i + 1) p arr) = Done arr' p'"
      by (auto simp: u8_loop.simps [of d sz max_size i pos arr] and_then_eq_Done)
    show ?thesis
    proof (cases "to_int i < max_size")
      case st: True
      with rest have il: "i < length arr"
        and r: "u8_loop d sz max_size (i + 1) p (arr[i := ucast v]) = Done arr' p'"
        by (auto split: if_splits)
      from "1.IH"(1) [OF True st il r] show ?thesis by simp
    next
      case st: False
      with rest have r: "u8_loop d sz max_size (i + 1) p arr = Done arr' p'"
        by simp
      from "1.IH"(2) [OF True st r] show ?thesis .
    qed
  qed
qed

lemma read_i16_array_keeps_capacity:
  "read_i16_array d pos arr max_size = Done (n, arr') p' \<Longrightarrow> length arr' = length arr"
  unfolding read_i16_array_def Let_def
  by (auto simp: and_then_eq_Done dest: i16_loop_keeps_capacity)

lemma read_u8_array_keeps_capacity:
  "read_u8_array d pos arr max_size = Done (n, arr') p' \<Longrightarrow> length arr' = length arr"
  unfolding read_u8_array_def Let_def idx_def
  by (auto simp: and_then_eq_Done dest: u8_loop_keeps_capacity read_bin_keeps_capacity
      split: if_splits)

end
